theory Spec2Isabelle
  imports Complex_Main "HOL-Library.Char_ord" "HOL-Library.List_Lexorder"
    "HOL-Library.Sublist" "HOL-Library.AList"
begin

section \<open>The autocomplete engine over an ordered store\<close>

text \<open>
  This development embeds the Redis provider of the autocomplete package (tokenisation,
  composite-key encoding, range queries, sliding-window intersection, deletion) and the
  validating facade \<open>autocompleteImpl\<close> in front of it.

  Conventions.
  \<^item> A Go \<open>string\<close> is a byte sequence: \<open>string\<close> here, \<open>length\<close> is \<open>len\<close>, and the
    order of \<open>HOL-Library.List_Lexorder\<close> over \<open>HOL-Library.Char_ord\<close> is the bytewise
    order Redis compares members with.
  \<^item> \<open>strings.ToLower\<close> belongs to Go's standard library. Every operation that calls it
    takes it as the parameter \<open>ToLower\<close>, so the general theorems hold for whatever
    function it is; concrete evaluations pass \<open>asciiToLower\<close>, which is what the standard
    library computes on strings of ASCII bytes.
  \<^item> Go's \<open>int\<close> is the 64-bit signed integer. Lengths and positions are \<open>nat\<close>, option
    values are \<open>int\<close> (inside the 64-bit range); the two places where the source can leave
    that range are written out: the product \<open>MaxResults * multiplier\<close> wraps (\<open>wrap64\<close>), and
    \<open>start + n\<close> in the N-or-more-gram loop wraps to a negative slice bound, which panics
    (\<open>nOrMoreGramOverflow\<close>).
  \<^item> The iteration order of a Go map is unspecified. \<open>extractKeysFromSet\<close> takes the order
    as the parameter \<open>keysOf\<close>.
  \<^item> Names of the source that HOL already uses are changed: \<open>id\<close> is \<open>eid\<close>, \<open>end\<close> is
    \<open>fin\<close>, \<open>prefix\<close> is \<open>pfx\<close>, \<open>size\<close> is \<open>sz\<close>.
  \<^item> Redis specifies \<open>ZRANGEBYLEX\<close> for sorted sets whose members all have the same score
    (the facade always indexes with score 1); the range scan of the model is that
    specified behaviour, the members between the bounds in bytewise order.
  \<^item> The store never fails: a theorem about a call is about a call the backend served.
\<close>

subsection \<open>The store: sorted sets and hashes\<close>

type_synonym score = rat

text \<open>A sorted set is a finite map from member to score, kept as an association list.\<close>

type_synonym zset = "(string \<times> score) list"

text \<open>\<open>calls\<close> counts the commands the store has served.\<close>

record redis =
  zsets :: "string \<Rightarrow> zset"
  hashes :: "string \<Rightarrow> (string \<rightharpoonup> string)"
  calls :: nat

definition emptyRedis :: redis where
  "emptyRedis = \<lparr>zsets = (\<lambda>_. []), hashes = (\<lambda>_. Map.empty), calls = 0\<rparr>"

definition zmembers :: "redis \<Rightarrow> string \<Rightarrow> string set" where
  "zmembers st key = set (map fst (zsets st key))"

definition ZAdd :: "string \<Rightarrow> score \<Rightarrow> string \<Rightarrow> redis \<Rightarrow> redis" where
  "ZAdd key sc member st =
     st\<lparr>zsets := (zsets st)(key := AList.update member sc (zsets st key)),
        calls := Suc (calls st)\<rparr>"

definition ZRem :: "string \<Rightarrow> string \<Rightarrow> redis \<Rightarrow> redis" where
  "ZRem key member st =
     st\<lparr>zsets := (zsets st)(key := AList.delete member (zsets st key)),
        calls := Suc (calls st)\<rparr>"

definition HSet :: "string \<Rightarrow> string \<Rightarrow> string \<Rightarrow> redis \<Rightarrow> redis" where
  "HSet key field v st =
     st\<lparr>hashes := (hashes st)(key := (hashes st key)(field \<mapsto> v)),
        calls := Suc (calls st)\<rparr>"

definition HDel :: "string \<Rightarrow> string \<Rightarrow> redis \<Rightarrow> redis" where
  "HDel key field st =
     st\<lparr>hashes := (hashes st)(key := (hashes st key)(field := None)),
        calls := Suc (calls st)\<rparr>"

definition Del :: "string \<Rightarrow> redis \<Rightarrow> redis" where
  "Del key st =
     st\<lparr>zsets := (zsets st)(key := []), hashes := (hashes st)(key := Map.empty),
        calls := Suc (calls st)\<rparr>"

text \<open>\<open>HGet\<close> answers \<open>None\<close> for \<open>redis.Nil\<close>; \<open>HMGet\<close> answers one entry per field.\<close>

definition HGet :: "string \<Rightarrow> string \<Rightarrow> redis \<Rightarrow> string option \<times> redis" where
  "HGet key field st = (hashes st key field, st\<lparr>calls := Suc (calls st)\<rparr>)"

definition HMGet :: "string \<Rightarrow> string list \<Rightarrow> redis \<Rightarrow> string option list \<times> redis" where
  "HMGet key flds st = (map (hashes st key) flds, st\<lparr>calls := Suc (calls st)\<rparr>)"

text \<open>
  The bounds of \<open>ZRANGEBYLEX\<close>: \<open>[\<close> inclusive, \<open>(\<close> exclusive, \<open>-\<close> and \<open>+\<close> the two
  infinities; any other text is rejected by the store.
\<close>

datatype lexbound = Incl string | Excl string | NegInf | PosInf

definition parseLexBound :: "string \<Rightarrow> lexbound option" where
  "parseLexBound s =
     (if s = ''-'' then Some NegInf
      else if s = ''+'' then Some PosInf
      else (case s of
              [] \<Rightarrow> None
            | c # b \<Rightarrow> if c = CHR ''['' then Some (Incl b)
                       else if c = CHR ''('' then Some (Excl b)
                       else None))"

fun aboveMin :: "lexbound \<Rightarrow> string \<Rightarrow> bool" where
  "aboveMin (Incl b) m = (b \<le> m)"
| "aboveMin (Excl b) m = (b < m)"
| "aboveMin NegInf m = True"
| "aboveMin PosInf m = False"

fun belowMax :: "lexbound \<Rightarrow> string \<Rightarrow> bool" where
  "belowMax (Incl b) m = (m \<le> b)"
| "belowMax (Excl b) m = (m < b)"
| "belowMax NegInf m = False"
| "belowMax PosInf m = True"

text \<open>
  \<open>LIMIT 0 count\<close>: the client sends no \<open>LIMIT\<close> when the count is 0, and the store reads a
  negative count as "all".
\<close>

definition limitCount :: "int \<Rightarrow> 'a list \<Rightarrow> 'a list" where
  "limitCount count xs = (if count \<le> 0 then xs else take (nat count) xs)"

definition lexRange :: "zset \<Rightarrow> lexbound \<Rightarrow> lexbound \<Rightarrow> string list" where
  "lexRange z lo hi =
     sort (remdups (filter (\<lambda>m. aboveMin lo m \<and> belowMax hi m) (map fst z)))"

text \<open>
  \<open>ZRANGEBYLEX key min max LIMIT 0 count\<close> on a sorted set whose members share one score
  (the facade always indexes with score 1): the members inside the bounds in bytewise
  order. \<open>None\<close> is the store's error for a malformed bound.
\<close>

definition ZRangeByLex ::
  "string \<Rightarrow> string \<Rightarrow> string \<Rightarrow> int \<Rightarrow> redis \<Rightarrow> string list option \<times> redis" where
  "ZRangeByLex key mn mx count st =
     ((case parseLexBound mn of
         None \<Rightarrow> None
       | Some lo \<Rightarrow>
           (case parseLexBound mx of
              None \<Rightarrow> None
            | Some hi \<Rightarrow> Some (limitCount count (lexRange (zsets st key) lo hi)))),
      st\<lparr>calls := Suc (calls st)\<rparr>)"

text \<open>A pipeline queues write commands; \<open>Exec\<close> sends them in order.\<close>

datatype cmd =
    ZAddCmd string score string
  | ZRemCmd string string
  | HSetCmd string string string
  | HDelCmd string string
  | DelCmd string

fun execCmd :: "cmd \<Rightarrow> redis \<Rightarrow> redis" where
  "execCmd (ZAddCmd key sc member) st = ZAdd key sc member st"
| "execCmd (ZRemCmd key member) st = ZRem key member st"
| "execCmd (HSetCmd key field v) st = HSet key field v st"
| "execCmd (HDelCmd key field) st = HDel key field st"
| "execCmd (DelCmd key) st = Del key st"

definition Exec :: "cmd list \<Rightarrow> redis \<Rightarrow> redis" where
  "Exec pipe st = fold execCmd pipe st"

subsection \<open>Options, results and errors\<close>

datatype MatchStrategy = MatchPrefix | MatchNGram | MatchNOrMoreGram | MatchSubstring

record IndexOptions =
  io_Score :: score
  io_MatchStrategy :: MatchStrategy
  io_NGramSize :: int
  io_CaseSensitive :: bool

text \<open>Of \<open>QueryOptions\<close>, the fields the provider reads.\<close>

record QueryOptions =
  qo_MaxResults :: int
  qo_CaseSensitive :: bool
  qo_MatchStrategy :: MatchStrategy
  qo_NGramSize :: int

record ProviderResult =
  ID :: string
  Display :: string
  Score :: score

datatype error =
    ErrQueryTooShort
  | ErrLimitExceeded
  | ErrEmptyID
  | ErrEmptyText
  | ErrEmptyDisplay
  | ErrBackend
  | Panic

subsection \<open>Constants and helpers of the provider\<close>

definition prefixSet :: string where "prefixSet = ''ac:set:''"
definition prefixDisplay :: string where "prefixDisplay = ''ac:display:''"
definition prefixText :: string where "prefixText = ''ac:text:''"
definition prefixMeta :: string where "prefixMeta = ''ac:meta:''"
definition defaultNGramSize :: int where "defaultNGramSize = 3"
definition lexicographicMaxChar :: string where "lexicographicMaxChar = [CHR 0xFF]"
definition resultMultiplierForDuplicates :: int where "resultMultiplierForDuplicates = 10"
definition resultMultiplierForIntersection :: int where "resultMultiplierForIntersection = 20"
definition minMemberPartsForID :: int where "minMemberPartsForID = 2"
definition minMemberPartsForPositionalID :: int where "minMemberPartsForPositionalID = 3"

definition wrap64 :: "int \<Rightarrow> int" where
  "wrap64 x = (x + 2 ^ 63) mod 2 ^ 64 - 2 ^ 63"

text \<open>\<open>s[i:j]\<close> for \<open>i \<le> j \<le> len(s)\<close>.\<close>

definition slice :: "string \<Rightarrow> nat \<Rightarrow> nat \<Rightarrow> string" where
  "slice s i j = take (j - i) (drop i s)"

text \<open>The verb \<open>%d\<close> on a position.\<close>

fun itoa :: "nat \<Rightarrow> string" where
  "itoa n = (if n < 10 then [''0123456789'' ! n]
             else itoa (n div 10) @ [''0123456789'' ! (n mod 10)])"

declare itoa.simps [simp del]

text \<open>\<open>strings.Split(s, ":")\<close>: the fields between the separators, at least one.\<close>

fun Split :: "string \<Rightarrow> string list" where
  "Split [] = [[]]"
| "Split (c # s) =
     (if c = CHR '':'' then [] # Split s
      else (case Split s of [] \<Rightarrow> [[c]] | p # ps \<Rightarrow> (c # p) # ps))"

definition asciiToLower :: "string \<Rightarrow> string" where
  "asciiToLower s =
     map (\<lambda>c. if CHR ''A'' \<le> c \<and> c \<le> CHR ''Z'' then char_of (of_char c + (32::nat)) else c) s"

definition createLexicographicStartKey :: "string \<Rightarrow> string" where
  "createLexicographicStartKey query = ''['' @ query"

definition createLexicographicEndKey :: "string \<Rightarrow> string" where
  "createLexicographicEndKey query = ''['' @ query @ lexicographicMaxChar"

definition getNGramSizeOrDefault :: "int \<Rightarrow> int" where
  "getNGramSizeOrDefault sz = (if sz \<le> 0 then defaultNGramSize else sz)"

definition createPrefixMember :: "string \<Rightarrow> string \<Rightarrow> string" where
  "createPrefixMember pfx eid = pfx @ '':'' @ eid"

definition createPositionalMember :: "string \<Rightarrow> string \<Rightarrow> nat \<Rightarrow> string" where
  "createPositionalMember text eid position = text @ '':'' @ eid @ '':'' @ itoa position"

text \<open>
  The callers pass 2 or 3 for \<open>minParts\<close>, so \<open>parts[1]\<close> exists whenever the test on
  the number of parts succeeds.
\<close>

definition extractIDFromMember :: "string \<Rightarrow> int \<Rightarrow> string" where
  "extractIDFromMember member minParts =
     (let parts = Split member in
      if int (length parts) \<ge> minParts then parts ! 1 else [])"

definition extractIDsFromResults :: "string list \<Rightarrow> int \<Rightarrow> string set" where
  "extractIDsFromResults results minParts =
     fold (\<lambda>result idSet.
            (let eid = extractIDFromMember result minParts in
             if eid \<noteq> [] then insert eid idSet else idSet))
          results {}"

definition isEmptySet :: "string set \<Rightarrow> bool" where
  "isEmptySet s = (s = {})"

text \<open>\<open>ids[:maxResults]\<close> panics on a negative bound.\<close>

definition limitResults :: "string list \<Rightarrow> int \<Rightarrow> error + string list" where
  "limitResults ids maxResults =
     (if int (length ids) > maxResults
      then (if maxResults < 0 then Inl Panic else Inr (take (nat maxResults) ids))
      else Inr ids)"

definition getMinPartsForStrategy :: "MatchStrategy \<Rightarrow> int" where
  "getMinPartsForStrategy strategy =
     (if strategy = MatchPrefix then minMemberPartsForID else minMemberPartsForPositionalID)"

text \<open>The loop of \<open>extractUniqueIDsFromResults\<close>, with its two accumulators.\<close>

fun uniqueIDsLoop :: "string list \<Rightarrow> int \<Rightarrow> int \<Rightarrow> string set \<Rightarrow> string list \<Rightarrow> string list" where
  "uniqueIDsLoop [] minParts maxResults uniqueIDs ids = ids"
| "uniqueIDsLoop (result # results) minParts maxResults uniqueIDs ids =
     (let eid = extractIDFromMember result minParts in
      if eid \<noteq> [] \<and> eid \<notin> uniqueIDs then
        (if int (length (ids @ [eid])) \<ge> maxResults then ids @ [eid]
         else uniqueIDsLoop results minParts maxResults (insert eid uniqueIDs) (ids @ [eid]))
      else uniqueIDsLoop results minParts maxResults uniqueIDs ids)"

definition extractUniqueIDsFromResults :: "string list \<Rightarrow> QueryOptions \<Rightarrow> string list" where
  "extractUniqueIDsFromResults results options =
     uniqueIDsLoop results (getMinPartsForStrategy (qo_MatchStrategy options))
       (qo_MaxResults options) {} []"

definition removePrefixMembers :: "string \<Rightarrow> string \<Rightarrow> string \<Rightarrow> cmd list" where
  "removePrefixMembers key text eid =
     map (\<lambda>i. ZRemCmd key (createPrefixMember (take i text) eid)) [1 ..< Suc (length text)]"

definition removePositionalMembers :: "string \<Rightarrow> string \<Rightarrow> string \<Rightarrow> cmd list" where
  "removePositionalMembers key text eid =
     concat (map (\<lambda>start.
               map (\<lambda>fin. ZRemCmd key (createPositionalMember (slice text start fin) eid start))
                   [start + 1 ..< Suc (length text)])
             [0 ..< length text])"

definition deleteAllKeysForNamespace :: "string \<Rightarrow> cmd list" where
  "deleteAllKeysForNamespace key =
     [DelCmd (prefixSet @ key), DelCmd (prefixText @ key),
      DelCmd (prefixDisplay @ key), DelCmd (prefixMeta @ key)]"

definition copySet :: "string set \<Rightarrow> string set" where
  "copySet source = source"

definition removeNonIntersectingIDs :: "string set \<Rightarrow> string set list \<Rightarrow> string set" where
  "removeNonIntersectingIDs intersection remainingSets =
     fold (\<lambda>s acc. Set.filter (\<lambda>eid. eid \<in> s) acc) remainingSets intersection"

definition extractKeysFromSet :: "(string set \<Rightarrow> string list) \<Rightarrow> string set \<Rightarrow> string list" where
  "extractKeysFromSet keysOf s = keysOf s"

definition intersectIDSets :: "(string set \<Rightarrow> string list) \<Rightarrow> string set list \<Rightarrow> string list" where
  "intersectIDSets keysOf sets =
     (if length sets = 0 then []
      else if length sets = 1 then extractKeysFromSet keysOf (sets ! 0)
      else extractKeysFromSet keysOf
             (removeNonIntersectingIDs (copySet (sets ! 0)) (tl sets)))"

subsection \<open>The provider\<close>

text \<open>
  In the N-or-more-gram loop \<open>end := start + n\<close> leaves the 64-bit range when
  \<open>start + n \<ge> 2^63\<close>; the wrapped value is negative, passes \<open>end <= len\<close>, and the slice
  \<open>textToIndex[start:end]\<close> panics before the pipeline is sent. The largest \<open>start\<close> is
  \<open>len - 1\<close>.
\<close>

definition nOrMoreGramOverflow :: "nat \<Rightarrow> int \<Rightarrow> bool" where
  "nOrMoreGramOverflow len n = (0 < len \<and> 2 ^ 63 \<le> int len - 1 + n)"

text \<open>The members the \<open>switch\<close> of \<open>Index\<close> queues, in the order of its loops.\<close>

definition indexMembers :: "string \<Rightarrow> string \<Rightarrow> MatchStrategy \<Rightarrow> int \<Rightarrow> string list" where
  "indexMembers textToIndex eid strategy ngramSize =
     (case strategy of
        MatchPrefix \<Rightarrow>
          map (\<lambda>i. createPrefixMember (take i textToIndex) eid) [1 ..< Suc (length textToIndex)]
      | MatchNGram \<Rightarrow>
          (let n = getNGramSizeOrDefault ngramSize in
           map (\<lambda>i. createPositionalMember (slice textToIndex i (i + nat n)) eid i)
               [0 ..< nat (int (length textToIndex) - n + 1)])
      | MatchNOrMoreGram \<Rightarrow>
          (let n = getNGramSizeOrDefault ngramSize in
           concat (map (\<lambda>start.
                     map (\<lambda>fin. createPositionalMember (slice textToIndex start fin) eid start)
                         [start + nat n ..< Suc (length textToIndex)])
                   [0 ..< length textToIndex]))
      | MatchSubstring \<Rightarrow>
          concat (map (\<lambda>start.
                    map (\<lambda>fin. createPositionalMember (slice textToIndex start fin) eid start)
                        [start + 1 ..< Suc (length textToIndex)])
                  [0 ..< length textToIndex]))"

definition Index ::
  "(string \<Rightarrow> string) \<Rightarrow> string \<Rightarrow> string \<Rightarrow> string \<Rightarrow> string \<Rightarrow> IndexOptions \<Rightarrow> redis
     \<Rightarrow> error option \<times> redis" where
  "Index ToLower key eid text display options st =
     (let textToIndex = (if \<not> io_CaseSensitive options then ToLower text else text) in
      if io_MatchStrategy options = MatchNOrMoreGram \<and>
         nOrMoreGramOverflow (length textToIndex) (getNGramSizeOrDefault (io_NGramSize options))
      then (Some Panic, st)
      else
        (let pipe =
               map (ZAddCmd (prefixSet @ key) (io_Score options))
                   (indexMembers textToIndex eid (io_MatchStrategy options) (io_NGramSize options))
               @ [HSetCmd (prefixText @ key) eid text,
                  HSetCmd (prefixDisplay @ key) eid display,
                  (if io_CaseSensitive options then HSetCmd (prefixMeta @ key) eid ''1''
                   else HDelCmd (prefixMeta @ key) eid)]
         in (None, Exec pipe st)))"

text \<open>The loop of \<open>fetchProviderResults\<close> over the ids and the fetched display texts.\<close>

fun collectResults :: "string list \<Rightarrow> string option list \<Rightarrow> ProviderResult list" where
  "collectResults (eid # ids) (d # displayList) =
     (case d of
        None \<Rightarrow> collectResults ids displayList
      | Some display \<Rightarrow>
          \<lparr>ID = eid, Display = display, Score = 1\<rparr> # collectResults ids displayList)"
| "collectResults _ _ = []"

definition fetchProviderResults ::
  "string \<Rightarrow> string list \<Rightarrow> redis \<Rightarrow> (error + ProviderResult list) \<times> redis" where
  "fetchProviderResults key ids st =
     (if length ids = 0 then (Inr [], st)
      else (case HMGet (prefixDisplay @ key) ids st of
              (displayList, st1) \<Rightarrow> (Inr (collectResults ids displayList), st1)))"

text \<open>
  The loop of \<open>queryNGramSlidingWindow\<close> over the window starts: \<open>Inl r\<close> when the loop
  returns \<open>r\<close> from inside, \<open>Inr ngramSets\<close> when it runs to its end.
\<close>

fun windowLoop ::
  "string \<Rightarrow> string \<Rightarrow> nat \<Rightarrow> QueryOptions \<Rightarrow> nat list \<Rightarrow> string set list \<Rightarrow> redis
     \<Rightarrow> ((error + ProviderResult list) + string set list) \<times> redis" where
  "windowLoop key searchQuery n options [] ngramSets st = (Inr ngramSets, st)"
| "windowLoop key searchQuery n options (i # rest) ngramSets st =
     (let ngram = slice searchQuery i (i + n) in
      case ZRangeByLex (prefixSet @ key) (createLexicographicStartKey ngram)
             (createLexicographicEndKey ngram)
             (wrap64 (qo_MaxResults options * resultMultiplierForIntersection)) st of
        (None, st1) \<Rightarrow> (Inl (Inl ErrBackend), st1)
      | (Some results, st1) \<Rightarrow>
          (let idSet = extractIDsFromResults results minMemberPartsForPositionalID in
           if isEmptySet idSet then (Inl (Inr []), st1)
           else windowLoop key searchQuery n options rest (ngramSets @ [idSet]) st1))"

definition queryNGramSlidingWindow ::
  "(string set \<Rightarrow> string list) \<Rightarrow> string \<Rightarrow> string \<Rightarrow> int \<Rightarrow> QueryOptions \<Rightarrow> redis
     \<Rightarrow> (error + ProviderResult list) \<times> redis" where
  "queryNGramSlidingWindow keysOf key searchQuery n options st =
     (case windowLoop key searchQuery (nat n) options
             [0 ..< nat (int (length searchQuery) - n + 1)] [] st of
        (Inl r, st1) \<Rightarrow> (r, st1)
      | (Inr ngramSets, st1) \<Rightarrow>
          (case limitResults (intersectIDSets keysOf ngramSets) (qo_MaxResults options) of
             Inl e \<Rightarrow> (Inl e, st1)
           | Inr ids \<Rightarrow> fetchProviderResults key ids st1))"

definition Query ::
  "(string \<Rightarrow> string) \<Rightarrow> (string set \<Rightarrow> string list) \<Rightarrow> string \<Rightarrow> string \<Rightarrow> QueryOptions
     \<Rightarrow> redis \<Rightarrow> (error + ProviderResult list) \<times> redis" where
  "Query ToLower keysOf key query options st =
     (let searchQuery = (if \<not> qo_CaseSensitive options then ToLower query else query);
          n = getNGramSizeOrDefault (qo_NGramSize options) in
      if qo_MatchStrategy options = MatchNGram \<and> length searchQuery < 1 then (Inr [], st)
      else if qo_MatchStrategy options = MatchNGram \<and> int (length searchQuery) > n
        then queryNGramSlidingWindow keysOf key searchQuery n options st
      else if qo_MatchStrategy options = MatchNOrMoreGram \<and> int (length searchQuery) < n
        then (Inr [], st)
      else
        (case ZRangeByLex (prefixSet @ key) (createLexicographicStartKey searchQuery)
                (createLexicographicEndKey searchQuery)
                (wrap64 (qo_MaxResults options * resultMultiplierForDuplicates)) st of
           (None, st1) \<Rightarrow> (Inl ErrBackend, st1)
         | (Some results, st1) \<Rightarrow>
             fetchProviderResults key (extractUniqueIDsFromResults results options) st1))"

text \<open>
  \<open>Delete\<close> reads the text and the metadata directly, then sends one pipeline. A missing
  text (\<open>redis.Nil\<close>) leaves \<open>text\<close> empty.
\<close>

definition Delete ::
  "(string \<Rightarrow> string) \<Rightarrow> string \<Rightarrow> string \<Rightarrow> redis \<Rightarrow> error option \<times> redis" where
  "Delete ToLower key eid st =
     (case HGet (prefixText @ key) eid st of
        (textReply, st1) \<Rightarrow>
          (let text = (case textReply of None \<Rightarrow> [] | Some t \<Rightarrow> t);
               tail = [HDelCmd (prefixText @ key) eid, HDelCmd (prefixDisplay @ key) eid,
                       HDelCmd (prefixMeta @ key) eid] in
           if text \<noteq> [] then
             (case HGet (prefixMeta @ key) eid st1 of
                (meta, st2) \<Rightarrow>
                  (let caseSensitive = (meta = Some ''1'');
                       textToDelete = (if \<not> caseSensitive then ToLower text else text)
                   in (None,
                       Exec (removePrefixMembers (prefixSet @ key) textToDelete eid
                             @ removePositionalMembers (prefixSet @ key) textToDelete eid
                             @ tail) st2)))
           else (None, Exec tail st1)))"

definition DeleteAll :: "string \<Rightarrow> redis \<Rightarrow> error option \<times> redis" where
  "DeleteAll key st = (None, Exec (deleteAllKeysForNamespace key) st)"

subsection \<open>The facade\<close>

record Options =
  DefaultLimit :: int
  MaxLimit :: int
  CaseSensitive :: bool
  MinPrefixLength :: int
  Namespace :: string
  MatchStrategy :: MatchStrategy
  NGramSize :: int

definition DefaultOptions :: Options where
  "DefaultOptions =
     \<lparr>DefaultLimit = 10, MaxLimit = 100, CaseSensitive = False, MinPrefixLength = 1,
      Namespace = ''autocomplete'', MatchStrategy = MatchSubstring, NGramSize = 3\<rparr>"

record Result =
  ResultID :: string
  ResultDisplay :: string
  ResultScore :: score

definition autocompleteImpl_Index ::
  "(string \<Rightarrow> string) \<Rightarrow> Options \<Rightarrow> string \<Rightarrow> string \<Rightarrow> string \<Rightarrow> redis
     \<Rightarrow> error option \<times> redis" where
  "autocompleteImpl_Index ToLower config eid text display st =
     (if eid = [] then (Some ErrEmptyID, st)
      else if text = [] then (Some ErrEmptyText, st)
      else if display = [] then (Some ErrEmptyDisplay, st)
      else Index ToLower (Namespace config) eid text display
             \<lparr>io_Score = 1, io_MatchStrategy = MatchStrategy config,
              io_NGramSize = NGramSize config, io_CaseSensitive = CaseSensitive config\<rparr> st)"

definition autocompleteImpl_Query ::
  "(string \<Rightarrow> string) \<Rightarrow> (string set \<Rightarrow> string list) \<Rightarrow> Options \<Rightarrow> string \<Rightarrow> int \<Rightarrow> redis
     \<Rightarrow> (error + Result list) \<times> redis" where
  "autocompleteImpl_Query ToLower keysOf config query limit st =
     (if int (length query) < MinPrefixLength config then (Inl ErrQueryTooShort, st)
      else
        (let limit1 = (if limit \<le> 0 then DefaultLimit config else limit) in
         if limit1 > MaxLimit config then (Inl ErrLimitExceeded, st)
         else
           (case Query ToLower keysOf (Namespace config) query
                   \<lparr>qo_MaxResults = limit1, qo_CaseSensitive = CaseSensitive config,
                    qo_MatchStrategy = MatchStrategy config,
                    qo_NGramSize = NGramSize config\<rparr> st of
              (Inl err, st1) \<Rightarrow> (Inl err, st1)
            | (Inr providerResults, st1) \<Rightarrow>
                (Inr (map (\<lambda>pr. \<lparr>ResultID = ID pr, ResultDisplay = Display pr,
                                  ResultScore = Score pr\<rparr>) providerResults), st1))))"

definition autocompleteImpl_Delete ::
  "(string \<Rightarrow> string) \<Rightarrow> Options \<Rightarrow> string \<Rightarrow> redis \<Rightarrow> error option \<times> redis" where
  "autocompleteImpl_Delete ToLower config eid st =
     (if eid = [] then (Some ErrEmptyID, st) else Delete ToLower (Namespace config) eid st)"

definition autocompleteImpl_DeleteAll :: "Options \<Rightarrow> redis \<Rightarrow> error option \<times> redis" where
  "autocompleteImpl_DeleteAll config st = DeleteAll (Namespace config) st"

subsection \<open>Notions used in the statements\<close>


text \<open>
  The windows of a query: its contiguous byte substrings of length \<open>n\<close>, from left to
  right; there are \<open>len(query) - n + 1\<close> of them.
\<close>

definition windows :: "string \<Rightarrow> nat \<Rightarrow> string list" where
  "windows query n = map (\<lambda>i. slice query i (i + n)) [0 ..< length query + 1 - n]"

text \<open>
  The id set of a window: the ids decoded from the range scan of the window, the scan
  being the one the sliding-window query issues (bounds \<open>[w\<close> and \<open>[w\xff\<close>, count
  \<open>MaxResults * 20\<close>).
\<close>

definition windowIDSet :: "redis \<Rightarrow> string \<Rightarrow> int \<Rightarrow> string \<Rightarrow> string set" where
  "windowIDSet st key maxResults w =
     extractIDsFromResults
       (limitCount (wrap64 (maxResults * resultMultiplierForIntersection))
          (lexRange (zsets st (prefixSet @ key)) (Incl w) (Incl (w @ lexicographicMaxChar))))
       minMemberPartsForPositionalID"

text \<open>The store of the provider's sliding-window test: five entries, trigrams.\<close>

definition slidingWindowStore :: redis where
  "slidingWindowStore =
     fold (\<lambda>(eid, text) st.
             snd (Index asciiToLower ''test_sliding'' eid text text
                    \<lparr>io_Score = 1, io_MatchStrategy = MatchNGram, io_NGramSize = 3,
                     io_CaseSensitive = False\<rparr> st))
       [(''1'', ''bookshelf''), (''2'', ''notebook''), (''3'', ''facebook''),
        (''4'', ''shelfware''), (''5'', ''bookkeeper'')]
       emptyRedis"

text \<open>A store with one entry indexed by prefixes.\<close>

definition cityStore :: redis where
  "cityStore = snd (Index asciiToLower ''cities'' ''1'' ''Mumbai'' ''Mumbai, Maharashtra''
                      \<lparr>io_Score = 1, io_MatchStrategy = MatchPrefix, io_NGramSize = 3,
                       io_CaseSensitive = False\<rparr> emptyRedis)"



section \<open>Validation in the facade\<close>

text \<open>
  Claim C8. \<open>Index\<close> with an empty id, text or display returns \<open>ErrEmptyID\<close>,
  \<open>ErrEmptyText\<close> or \<open>ErrEmptyDisplay\<close> (the first that applies, in this order), and
  \<open>Query\<close> with a query shorter than \<open>MinPrefixLength\<close> returns \<open>ErrQueryTooShort\<close>, with a
  limit (after the default for a non-positive limit) above \<open>MaxLimit\<close> returns
  \<open>ErrLimitExceeded\<close>. In each case the store is returned as it was, its call counter
  included: no command reached the backend.
\<close>

theorem C8_validation_before_backend:
  "(eid = [] \<or> text = [] \<or> display = [] \<longrightarrow>
      autocompleteImpl_Index ToLower config eid text display st =
        (Some (if eid = [] then ErrEmptyID else if text = [] then ErrEmptyText
               else ErrEmptyDisplay), st))
   \<and> (int (length query) < MinPrefixLength config \<longrightarrow>
      autocompleteImpl_Query ToLower keysOf config query limit st = (Inl ErrQueryTooShort, st))
   \<and> (MinPrefixLength config \<le> int (length query)
        \<and> MaxLimit config < (if limit \<le> 0 then DefaultLimit config else limit) \<longrightarrow>
      autocompleteImpl_Query ToLower keysOf config query limit st = (Inl ErrLimitExceeded, st))"
  by (simp add: autocompleteImpl_Index_def autocompleteImpl_Query_def Let_def)

theorem C8_validation_witness:
  "autocompleteImpl_Index asciiToLower DefaultOptions [] ''Text'' ''Display'' emptyRedis
     = (Some ErrEmptyID, emptyRedis)
   \<and> autocompleteImpl_Index asciiToLower DefaultOptions ''2'' [] ''Display'' emptyRedis
     = (Some ErrEmptyText, emptyRedis)
   \<and> autocompleteImpl_Index asciiToLower DefaultOptions ''3'' ''Text'' [] emptyRedis
     = (Some ErrEmptyDisplay, emptyRedis)
   \<and> autocompleteImpl_Query asciiToLower sorted_list_of_set DefaultOptions [] 10 emptyRedis
     = (Inl ErrQueryTooShort, emptyRedis)
   \<and> autocompleteImpl_Query asciiToLower sorted_list_of_set DefaultOptions ''test'' 101
        emptyRedis
     = (Inl ErrLimitExceeded, emptyRedis)"
  using
    C8_validation_before_backend [of "[]" "''Text''" "''Display''" asciiToLower
      DefaultOptions emptyRedis "[]" sorted_list_of_set 10]
    C8_validation_before_backend [of "''2''" "[]" "''Display''" asciiToLower
      DefaultOptions emptyRedis "''test''" sorted_list_of_set 101]
    C8_validation_before_backend [of "''3''" "''Text''" "[]" asciiToLower
      DefaultOptions emptyRedis "''test''" sorted_list_of_set 101]
  by (simp add: DefaultOptions_def)

section \<open>Queries below the n-gram size\<close>

text \<open>
  Claim C9. With the N-or-more-gram strategy, a query whose search string (the query,
  lowercased unless the query is case-sensitive) is strictly shorter than the n-gram size
  \<open>n\<close> returns the empty result at once: the store comes back unchanged, call counter
  included, so no range scan was issued.
\<close>

theorem C9_short_nOrMoreGram_query_returns_empty:
  assumes "qo_MatchStrategy options = MatchNOrMoreGram"
    and "int (length (if \<not> qo_CaseSensitive options then ToLower query else query))
           < getNGramSizeOrDefault (qo_NGramSize options)"
  shows "Query ToLower keysOf key query options st = (Inr [], st)"
  using assms by (simp add: Query_def Let_def)

theorem C9_short_nOrMoreGram_query_witness:
  "Query asciiToLower sorted_list_of_set ''products'' ''Ph''
     \<lparr>qo_MaxResults = 10, qo_CaseSensitive = False, qo_MatchStrategy = MatchNOrMoreGram,
      qo_NGramSize = 3\<rparr> emptyRedis = (Inr [], emptyRedis)"
  by (rule C9_short_nOrMoreGram_query_returns_empty)
     (simp_all add: asciiToLower_def getNGramSizeOrDefault_def)

section \<open>Decoding composite keys\<close>

lemma Split_nonempty: "Split s \<noteq> []"
  by (induction s) (auto split: list.splits)

lemma length_Split: "length (Split s) = Suc (count_list s CHR '':'')"
  by (induction s) (auto split: list.splits simp: Split_nonempty)


lemma Split_field: "CHR '':'' \<notin> set a \<Longrightarrow> Split (a @ CHR '':'' # rest) = a # Split rest"
  by (induction a) auto

lemma extractIDFromMember_short:
  "int (length (Split member)) < minParts \<Longrightarrow> extractIDFromMember member minParts = []"
  by (simp add: extractIDFromMember_def Let_def)

lemma uniqueIDsLoop_filter:
  "uniqueIDsLoop (filter (\<lambda>m. minParts \<le> int (length (Split m))) results)
     minParts maxResults uniqueIDs ids
   = uniqueIDsLoop results minParts maxResults uniqueIDs ids"
  by (induction results arbitrary: uniqueIDs ids)
     (simp_all add: extractIDFromMember_def Let_def)

lemma fold_extract_filter:
  "fold (\<lambda>result idSet.
            (let eid = extractIDFromMember result minParts in
             if eid \<noteq> [] then insert eid idSet else idSet))
     (filter (\<lambda>m. minParts \<le> int (length (Split m))) results) acc
   = fold (\<lambda>result idSet.
            (let eid = extractIDFromMember result minParts in
             if eid \<noteq> [] then insert eid idSet else idSet)) results acc"
  by (induction results arbitrary: acc)
     (simp_all add: extractIDFromMember_def Let_def)

section \<open>Re-indexing an id\<close>

text \<open>
  Claim C1 fails on the code: \<open>Index\<close> only adds. Indexing the id \<open>1\<close> with the text
  \<open>ab\<close> and then with \<open>cd\<close> (prefix strategy, empty store) succeeds and leaves the keys
  \<open>a:1\<close> and \<open>ab:1\<close> of the first text beside the two keys the tokenizer produces for
  \<open>cd\<close>; the query \<open>a\<close> still returns the entry, under its new display text.
\<close>

theorem C1_reindex_keeps_old_keys:
  "(let options = \<lparr>io_Score = 1, io_MatchStrategy = MatchPrefix, io_NGramSize = 3,
                     io_CaseSensitive = False\<rparr>;
        st1 = snd (Index asciiToLower ''ns'' ''1'' ''ab'' ''AB'' options emptyRedis);
        st2 = snd (Index asciiToLower ''ns'' ''1'' ''cd'' ''CD'' options st1)
    in fst (Index asciiToLower ''ns'' ''1'' ''cd'' ''CD'' options st1) = None
       \<and> set (indexMembers ''cd'' ''1'' MatchPrefix 3) = {''c:1'', ''cd:1''}
       \<and> zmembers st2 (prefixSet @ ''ns'') = {''a:1'', ''ab:1'', ''c:1'', ''cd:1''}
       \<and> fst (Query asciiToLower sorted_list_of_set ''ns'' ''a''
                 \<lparr>qo_MaxResults = 10, qo_CaseSensitive = False,
                  qo_MatchStrategy = MatchPrefix, qo_NGramSize = 3\<rparr> st2)
           = Inr [\<lparr>ID = ''1'', Display = ''CD'', Score = 1\<rparr>])"
  by code_simp

section \<open>The errors of a query\<close>










section \<open>The members an entry is indexed under\<close>


lemma set_range_from_one:
  "set (map g [1 ..< Suc b]) = {g i | i. 1 \<le> i \<and> i \<le> b}"
  by (auto simp del: upt_Suc simp: less_Suc_eq_le)

lemma getNGramSizeOrDefault_pos: "0 < getNGramSizeOrDefault sz"
  by (simp add: getNGramSizeOrDefault_def defaultNGramSize_def)

lemma set_indexMembers_Prefix:
  "set (indexMembers t eid MatchPrefix sz) =
     {createPrefixMember (take i t) eid | i. 1 \<le> i \<and> i \<le> length t}"
  unfolding indexMembers_def MatchStrategy.case by (rule set_range_from_one)







lemma removePrefixMembers_eq:
  "removePrefixMembers k t eid = map (ZRemCmd k) (indexMembers t eid MatchPrefix sz)"
  by (simp add: removePrefixMembers_def indexMembers_def)

lemma removePositionalMembers_eq:
  "removePositionalMembers k t eid = map (ZRemCmd k) (indexMembers t eid MatchSubstring sz)"
  by (simp add: removePositionalMembers_def indexMembers_def map_concat comp_def)

section \<open>The effect of the commands on the store\<close>

lemma zmembers_ZAdd:
  "zmembers (ZAdd k sc m st) k' = (if k' = k then insert m (zmembers st k) else zmembers st k')"
  by (auto simp: zmembers_def ZAdd_def dom_update)

lemma zmembers_ZRem:
  "zmembers (ZRem k m st) k' = (if k' = k then zmembers st k - {m} else zmembers st k')"
proof -
  have "fst ` set (AList.delete m z) = fst ` set z - {m}" for z :: zset
    using delete_keys [of m z] by (metis set_map set_removeAll)
  then show ?thesis by (simp add: zmembers_def ZRem_def)
qed

lemma zmembers_HSet: "zmembers (HSet k f v st) k' = zmembers st k'"
  by (simp add: zmembers_def HSet_def)

lemma zmembers_HDel: "zmembers (HDel k f st) k' = zmembers st k'"
  by (simp add: zmembers_def HDel_def)

lemma hashes_ZAdd: "hashes (ZAdd k sc m st) = hashes st"
  by (simp add: ZAdd_def)


lemma hashes_HSet:
  "hashes (HSet k f v st) k' = (if k' = k then (hashes st k)(f \<mapsto> v) else hashes st k')"
  by (simp add: HSet_def)

lemma hashes_HDel:
  "hashes (HDel k f st) k' = (if k' = k then (hashes st k)(f := None) else hashes st k')"
  by (simp add: HDel_def)

lemma Exec_Nil: "Exec [] st = st"
  by (simp add: Exec_def)

lemma Exec_Cons: "Exec (c # pipe) st = Exec pipe (execCmd c st)"
  by (simp add: Exec_def)

lemma Exec_append: "Exec (p @ q) st = Exec q (Exec p st)"
  by (simp add: Exec_def)

lemma zmembers_Exec_ZAdds:
  "zmembers (Exec (map (ZAddCmd k sc) ms) st) k' =
     (if k' = k then zmembers st k \<union> set ms else zmembers st k')"
  by (induction ms arbitrary: st) (auto simp: Exec_Nil Exec_Cons zmembers_ZAdd)

lemma hashes_Exec_ZAdds: "hashes (Exec (map (ZAddCmd k sc) ms) st) = hashes st"
  by (induction ms arbitrary: st) (auto simp: Exec_Nil Exec_Cons hashes_ZAdd)

lemma zmembers_Exec_ZRems:
  "zmembers (Exec (map (ZRemCmd k) ms) st) k' =
     (if k' = k then zmembers st k - set ms else zmembers st k')"
  by (induction ms arbitrary: st) (auto simp: Exec_Nil Exec_Cons zmembers_ZRem)


lemmas prefix_defs = prefixSet_def prefixText_def prefixDisplay_def prefixMeta_def

text \<open>The store after a successful \<open>Index\<close>.\<close>

lemma Index_success:
  assumes "Index ToLower key eid text display options st = (None, st1)"
  shows "zmembers st1 (prefixSet @ key) =
           zmembers st (prefixSet @ key)
           \<union> set (indexMembers (if \<not> io_CaseSensitive options then ToLower text else text) eid
                    (io_MatchStrategy options) (io_NGramSize options))"
    and "hashes st1 (prefixText @ key) = (hashes st (prefixText @ key))(eid \<mapsto> text)"
    and "hashes st1 (prefixDisplay @ key) = (hashes st (prefixDisplay @ key))(eid \<mapsto> display)"
    and "hashes st1 (prefixMeta @ key) =
           (hashes st (prefixMeta @ key))
             (eid := if io_CaseSensitive options then Some ''1'' else None)"
proof -
  let ?t = "if \<not> io_CaseSensitive options then ToLower text else text"
  let ?ms = "indexMembers ?t eid (io_MatchStrategy options) (io_NGramSize options)"
  let ?meta = "if io_CaseSensitive options then HSetCmd (prefixMeta @ key) eid ''1''
                   else HDelCmd (prefixMeta @ key) eid"
  have st1: "st1 = execCmd ?meta (HSet (prefixDisplay @ key) eid display
                (HSet (prefixText @ key) eid text
                  (Exec (map (ZAddCmd (prefixSet @ key) (io_Score options)) ?ms) st)))"
    using assms
    by (auto simp: Index_def Let_def Exec_append Exec_Cons Exec_Nil split: if_splits)
  show "zmembers st1 (prefixSet @ key) = zmembers st (prefixSet @ key) \<union> set ?ms"
    unfolding st1 by (simp add: zmembers_HSet zmembers_HDel zmembers_Exec_ZAdds)
  show "hashes st1 (prefixText @ key) = (hashes st (prefixText @ key))(eid \<mapsto> text)"
    unfolding st1
    by (simp add: hashes_HSet hashes_HDel hashes_Exec_ZAdds prefix_defs)
  show "hashes st1 (prefixDisplay @ key) = (hashes st (prefixDisplay @ key))(eid \<mapsto> display)"
    unfolding st1
    by (simp add: hashes_HSet hashes_HDel hashes_Exec_ZAdds prefix_defs)
  show "hashes st1 (prefixMeta @ key) =
           (hashes st (prefixMeta @ key))
             (eid := if io_CaseSensitive options then Some ''1'' else None)"
    unfolding st1
    by (simp add: hashes_HSet hashes_HDel hashes_Exec_ZAdds prefix_defs)
qed


lemma Delete_effect:
  assumes "Delete ToLower key eid st1 = (r, st2)"
  defines "text \<equiv> (case hashes st1 (prefixText @ key) eid of None \<Rightarrow> [] | Some t \<Rightarrow> t)"
  defines "textToDelete \<equiv>
             (if hashes st1 (prefixMeta @ key) eid = Some ''1'' then text else ToLower text)"
  shows "r = None"
    and "zmembers st2 (prefixSet @ key) =
           zmembers st1 (prefixSet @ key)
           - (if text = [] then {}
              else set (indexMembers textToDelete eid MatchPrefix 0)
                   \<union> set (indexMembers textToDelete eid MatchSubstring 0))"
    and "hashes st2 (prefixText @ key) eid = None"
    and "hashes st2 (prefixDisplay @ key) eid = None"
    and "hashes st2 (prefixMeta @ key) eid = None"
proof -
  let ?tail = "[HDelCmd (prefixText @ key) eid, HDelCmd (prefixDisplay @ key) eid,
                HDelCmd (prefixMeta @ key) eid]"
  have tail_z: "zmembers (Exec ?tail s) k = zmembers s k" for s k
    by (simp add: Exec_Cons Exec_Nil zmembers_HDel)
  have tail_h: "hashes (Exec ?tail s) (prefixText @ key) eid = None
      \<and> hashes (Exec ?tail s) (prefixDisplay @ key) eid = None
      \<and> hashes (Exec ?tail s) (prefixMeta @ key) eid = None" for s
    by (simp add: Exec_Cons Exec_Nil hashes_HDel prefix_defs)
  have calls_z: "zmembers (s\<lparr>calls := c\<rparr>) k = zmembers s k" for s c k
    by (simp add: zmembers_def)
  show "r = None"
    using assms(1) by (auto simp: Delete_def HGet_def Let_def split: if_splits)
  show "hashes st2 (prefixText @ key) eid = None"
    using assms(1) tail_h
    by (auto simp: Delete_def HGet_def Let_def Exec_append split: if_splits)
  show "hashes st2 (prefixDisplay @ key) eid = None"
    using assms(1) tail_h
    by (auto simp: Delete_def HGet_def Let_def Exec_append split: if_splits)
  show "hashes st2 (prefixMeta @ key) eid = None"
    using assms(1) tail_h
    by (auto simp: Delete_def HGet_def Let_def Exec_append split: if_splits)
  show "zmembers st2 (prefixSet @ key) =
           zmembers st1 (prefixSet @ key)
           - (if text = [] then {}
              else set (indexMembers textToDelete eid MatchPrefix 0)
                   \<union> set (indexMembers textToDelete eid MatchSubstring 0))"
  proof (cases "text = []")
    case True
    then have "st2 = Exec ?tail (st1\<lparr>calls := Suc (calls st1)\<rparr>)"
      using assms(1) by (simp add: Delete_def HGet_def Let_def text_def)
    then show ?thesis
      using True by (simp add: tail_z calls_z)
  next
    case False
    then have "st2 = Exec ?tail
        (Exec (map (ZRemCmd (prefixSet @ key)) (indexMembers textToDelete eid MatchSubstring 0))
          (Exec (map (ZRemCmd (prefixSet @ key)) (indexMembers textToDelete eid MatchPrefix 0))
            (st1\<lparr>calls := Suc (Suc (calls st1))\<rparr>)))"
      using assms(1)
      by (auto simp: Delete_def HGet_def Let_def text_def textToDelete_def Exec_append
          removePrefixMembers_eq [where sz = 0] removePositionalMembers_eq [where sz = 0])
    then show ?thesis
      using False by (auto simp: tail_z calls_z zmembers_Exec_ZRems)
  qed
qed








section \<open>The sliding window\<close>

lemma ZRangeByLex_keys:
  "ZRangeByLex k (createLexicographicStartKey q) (createLexicographicEndKey q) c st =
     (Some (limitCount c (lexRange (zsets st k) (Incl q) (Incl (q @ lexicographicMaxChar)))),
      st\<lparr>calls := Suc (calls st)\<rparr>)"
  by (simp add: ZRangeByLex_def parseLexBound_def createLexicographicStartKey_def
      createLexicographicEndKey_def)

lemma windowIDSet_calls: "windowIDSet (st\<lparr>calls := c\<rparr>) = windowIDSet st"
  by (simp add: windowIDSet_def fun_eq_iff)

lemma windowLoop_eq:
  "windowLoop key q n options starts acc st =
     (if \<exists>i \<in> set starts. windowIDSet st key (qo_MaxResults options) (slice q i (i + n)) = {}
      then (Inl (Inr []),
            st\<lparr>calls := calls st + Suc (length (takeWhile
               (\<lambda>i. windowIDSet st key (qo_MaxResults options) (slice q i (i + n)) \<noteq> {})
               starts))\<rparr>)
      else (Inr (acc @ map (\<lambda>i. windowIDSet st key (qo_MaxResults options) (slice q i (i + n)))
                         starts),
            st\<lparr>calls := calls st + length starts\<rparr>))"
proof (induction starts arbitrary: acc st)
  case Nil
  then show ?case by simp
next
  case (Cons i rest)
  let ?W = "\<lambda>s j. windowIDSet s key (qo_MaxResults options) (slice q j (j + n))"
  let ?st1 = "st\<lparr>calls := Suc (calls st)\<rparr>"
  have scan: "ZRangeByLex (prefixSet @ key) (createLexicographicStartKey (slice q i (i + n)))
             (createLexicographicEndKey (slice q i (i + n)))
             (wrap64 (qo_MaxResults options * resultMultiplierForIntersection)) st
        = (Some (limitCount (wrap64 (qo_MaxResults options * resultMultiplierForIntersection))
             (lexRange (zsets st (prefixSet @ key)) (Incl (slice q i (i + n)))
                (Incl (slice q i (i + n) @ lexicographicMaxChar)))), ?st1)"
    by (rule ZRangeByLex_keys)
  show ?case
  proof (cases "?W st i = {}")
    case True
    then show ?thesis
      by (simp add: scan Let_def isEmptySet_def windowIDSet_def)
  next
    case False
    then have step: "windowLoop key q n options (i # rest) acc st
        = windowLoop key q n options rest (acc @ [?W st i]) ?st1"
      by (simp add: scan Let_def isEmptySet_def windowIDSet_def)
    show ?thesis
      unfolding step Cons.IH [of "acc @ [?W st i]" ?st1]
      using False by (simp add: windowIDSet_calls)
  qed
qed


lemma removeNonIntersectingIDs_eq:
  "removeNonIntersectingIDs S rest = S \<inter> \<Inter> (set rest)"
  unfolding removeNonIntersectingIDs_def
  by (induction rest arbitrary: S) auto

lemma intersectIDSets_eq:
  assumes "sets \<noteq> []"
  shows "intersectIDSets keysOf sets = keysOf (\<Inter> (set sets))"
proof (cases sets)
  case Nil
  with assms show ?thesis by simp
next
  case (Cons s rest)
  then show ?thesis
    by (cases rest)
       (simp_all add: intersectIDSets_def extractKeysFromSet_def copySet_def
          removeNonIntersectingIDs_eq)
qed

lemma limitResults_eq:
  "limitResults ids m = (if m < 0 then Inl Panic else Inr (take (nat m) ids))"
  by (auto simp: limitResults_def)

lemma fetchProviderResults_eq:
  "fetchProviderResults key ids st =
     (Inr (collectResults ids (map (hashes st (prefixDisplay @ key)) ids)),
      if ids = [] then st else st\<lparr>calls := Suc (calls st)\<rparr>)"
  by (simp add: fetchProviderResults_def HMGet_def)

lemma fetchProviderResults_calls:
  "fst (fetchProviderResults key ids (st\<lparr>calls := c\<rparr>)) = fst (fetchProviderResults key ids st)"
  by (simp add: fetchProviderResults_eq)

lemma extractIDsFromResults_eq:
  "extractIDsFromResults results minParts =
     {eid \<in> (\<lambda>r. extractIDFromMember r minParts) ` set results. eid \<noteq> []}"
proof -
  have "fold (\<lambda>result idSet.
            (let eid = extractIDFromMember result minParts in
             if eid \<noteq> [] then insert eid idSet else idSet)) results acc
        = acc \<union> {eid \<in> (\<lambda>r. extractIDFromMember r minParts) ` set results. eid \<noteq> []}"
    for acc
    by (induction results arbitrary: acc) (auto simp: Let_def)
  then show ?thesis by (simp add: extractIDsFromResults_def)
qed

lemma finite_extractIDsFromResults: "finite (extractIDsFromResults results minParts)"
  by (simp add: extractIDsFromResults_eq)

lemma finite_windowIDSet: "finite (windowIDSet st key m w)"
  by (simp add: windowIDSet_def finite_extractIDsFromResults)

lemma length_collectResults: "length (collectResults ids ds) \<le> length ids"
  by (induction ids ds rule: collectResults.induct) (auto split: option.splits)

lemma collectResults_ids: "r \<in> set (collectResults ids ds) \<Longrightarrow> ID r \<in> set ids"
  by (induction ids ds rule: collectResults.induct) (auto split: option.splits)

lemma queryNGramSlidingWindow_eq:
  fixes q :: string and n :: int and st :: redis and key :: string and options :: QueryOptions
  assumes "0 < n"
  defines "ws \<equiv> windows q (nat n)"
  defines "W \<equiv> windowIDSet st key (qo_MaxResults options)"
  shows "queryNGramSlidingWindow keysOf key q n options st =
     (if \<exists>w \<in> set ws. W w = {}
      then (Inr [], st\<lparr>calls := calls st + Suc (length (takeWhile (\<lambda>w. W w \<noteq> {}) ws))\<rparr>)
      else (case limitResults (intersectIDSets keysOf (map W ws)) (qo_MaxResults options) of
              Inl e \<Rightarrow> (Inl e, st\<lparr>calls := calls st + length ws\<rparr>)
            | Inr ids \<Rightarrow> fetchProviderResults key ids (st\<lparr>calls := calls st + length ws\<rparr>)))"
proof -
  let ?starts = "[0 ..< nat (int (length q) - n + 1)]"
  have "nat (int (length q) - n + 1) = length q + 1 - nat n"
    using assms(1) by arith
  then have starts: "?starts = [0 ..< length q + 1 - nat n]"
    by (simp only:)
  have ws: "ws = map (\<lambda>i. slice q i (i + nat n)) ?starts"
    by (simp add: ws_def windows_def starts)
  have tw: "length (takeWhile (\<lambda>w. W w \<noteq> {}) ws)
      = length (takeWhile (\<lambda>i. W (slice q i (i + nat n)) \<noteq> {}) ?starts)"
    by (simp add: ws takeWhile_map comp_def)
  show ?thesis
    unfolding queryNGramSlidingWindow_def windowLoop_eq
    by (simp add: ws W_def tw [unfolded ws W_def] comp_def del: upt_Suc split: sum.splits)
qed


text \<open>
  Claim C2. For an N-gram query whose search string is longer than the n-gram size \<open>n\<close>,
  \<open>Query\<close> takes the windows of length \<open>n\<close> from left to right and scans each into its id
  set. If some window's id set is empty the result is empty, and the scans stop with the
  first such window (the call counter has advanced by its position). Otherwise the result
  is built from the intersection of all the window sets, enumerated in the map's order and
  cut to \<open>MaxResults\<close> (a negative \<open>MaxResults\<close> panics in the cut), by fetching the
  display texts. So a result has at most \<open>MaxResults\<close> entries, and an id appears in it
  only if it is in every window's set.
\<close>

theorem C2_sliding_window_intersection:
  assumes strategy: "qo_MatchStrategy options = MatchNGram"
    and n: "n = nat (getNGramSizeOrDefault (qo_NGramSize options))"
    and sq: "searchQuery = (if \<not> qo_CaseSensitive options then ToLower query else query)"
    and long: "n < length searchQuery"
    and ws: "ws = windows searchQuery n"
    and W: "W = windowIDSet st key (qo_MaxResults options)"
    and enum: "\<And>S. finite S \<Longrightarrow> set (keysOf S) = S"
  shows "fst (Query ToLower keysOf key query options st) =
           (if \<exists>w \<in> set ws. W w = {} then Inr []
            else if qo_MaxResults options < 0 then Inl Panic
            else fst (fetchProviderResults key
                        (take (nat (qo_MaxResults options)) (keysOf (\<Inter>w \<in> set ws. W w))) st))
    \<and> ((\<exists>w \<in> set ws. W w = {}) \<longrightarrow>
          snd (Query ToLower keysOf key query options st) =
            st\<lparr>calls := calls st + Suc (length (takeWhile (\<lambda>w. W w \<noteq> {}) ws))\<rparr>)
    \<and> (\<forall>rs. fst (Query ToLower keysOf key query options st) = Inr rs \<longrightarrow>
          length rs \<le> nat (qo_MaxResults options)
          \<and> (\<forall>r \<in> set rs. \<forall>w \<in> set ws. ID r \<in> W w))"
proof -
  let ?n = "getNGramSizeOrDefault (qo_NGramSize options)"
  let ?m = "qo_MaxResults options"
  let ?ids = "take (nat ?m) (keysOf (\<Inter>w \<in> set ws. W w))"
  have pos: "0 < ?n" by (rule getNGramSizeOrDefault_pos)
  have ws_ne: "ws \<noteq> []"
    using long by (simp add: ws windows_def)
  have slide: "Query ToLower keysOf key query options st
      = queryNGramSlidingWindow keysOf key searchQuery ?n options st"
    using strategy long pos by (auto simp: Query_def Let_def sq n)
  note eq = queryNGramSlidingWindow_eq [OF pos, of keysOf key searchQuery options st,
      folded n, folded ws W]
  have inter: "intersectIDSets keysOf (map W ws) = keysOf (\<Inter>w \<in> set ws. W w)"
    using ws_ne by (simp add: intersectIDSets_eq)
  have first: "fst (Query ToLower keysOf key query options st) =
           (if \<exists>w \<in> set ws. W w = {} then Inr []
            else if ?m < 0 then Inl Panic
            else fst (fetchProviderResults key ?ids st))"
    unfolding slide eq inter limitResults_eq
    by (simp add: fetchProviderResults_calls)
  have second: "snd (Query ToLower keysOf key query options st) =
            st\<lparr>calls := calls st + Suc (length (takeWhile (\<lambda>w. W w \<noteq> {}) ws))\<rparr>"
    if "\<exists>w \<in> set ws. W w = {}"
    unfolding slide eq using that by simp
  have third: "length rs \<le> nat ?m \<and> (\<forall>r \<in> set rs. \<forall>w \<in> set ws. ID r \<in> W w)"
    if rs: "fst (Query ToLower keysOf key query options st) = Inr rs" for rs
  proof (cases "\<exists>w \<in> set ws. W w = {}")
    case True
    with rs first show ?thesis by simp
  next
    case False
    with rs first have m: "\<not> ?m < 0"
      and res: "rs = collectResults ?ids (map (hashes st (prefixDisplay @ key)) ?ids)"
      by (auto simp: fetchProviderResults_eq split: if_splits)
    have "finite (\<Inter>w \<in> set ws. W w)"
      using ws_ne by (auto simp: W finite_windowIDSet neq_Nil_conv)
    then have "set (keysOf (\<Inter>w \<in> set ws. W w)) = (\<Inter>w \<in> set ws. W w)"
      by (rule enum)
    then have "set ?ids \<subseteq> (\<Inter>w \<in> set ws. W w)"
      using set_take_subset by fastforce
    moreover have "ID r \<in> set ?ids" if "r \<in> set rs" for r
      using that unfolding res by (rule collectResults_ids)
    moreover have "length rs \<le> nat ?m"
      unfolding res using length_collectResults [of ?ids] by (simp add: le_trans)
    ultimately show ?thesis by blast
  qed
  from first second third show ?thesis by blast
qed


theorem C2_sliding_window_witness:
  "fst (Query asciiToLower sorted_list_of_set ''test_sliding'' ''shelf''
          \<lparr>qo_MaxResults = 10, qo_CaseSensitive = False, qo_MatchStrategy = MatchNGram,
           qo_NGramSize = 3\<rparr> slidingWindowStore)
     = Inr [\<lparr>ID = ''1'', Display = ''bookshelf'', Score = 1\<rparr>,
            \<lparr>ID = ''4'', Display = ''shelfware'', Score = 1\<rparr>]
   \<and> fst (Query asciiToLower sorted_list_of_set ''test_sliding'' ''bookshelf''
          \<lparr>qo_MaxResults = 10, qo_CaseSensitive = False, qo_MatchStrategy = MatchNGram,
           qo_NGramSize = 3\<rparr> slidingWindowStore)
     = Inr [\<lparr>ID = ''1'', Display = ''bookshelf'', Score = 1\<rparr>]
   \<and> windows ''shelf'' 3 = [''she'', ''hel'', ''elf'']
   \<and> ''1'' \<in> windowIDSet slidingWindowStore ''test_sliding'' 10 ''she''
   \<and> ''1'' \<in> windowIDSet slidingWindowStore ''test_sliding'' 10 ''hel''
   \<and> ''1'' \<in> windowIDSet slidingWindowStore ''test_sliding'' 10 ''elf''
   \<and> ''4'' \<in> windowIDSet slidingWindowStore ''test_sliding'' 10 ''she''
   \<and> ''4'' \<in> windowIDSet slidingWindowStore ''test_sliding'' 10 ''hel''
   \<and> ''4'' \<in> windowIDSet slidingWindowStore ''test_sliding'' 10 ''elf''
   \<and> windows ''xbook'' 3 = [''xbo'', ''boo'', ''ook'']
   \<and> windowIDSet slidingWindowStore ''test_sliding'' 10 ''xbo'' = {}
   \<and> fst (Query asciiToLower sorted_list_of_set ''test_sliding'' ''xbook''
          \<lparr>qo_MaxResults = 10, qo_CaseSensitive = False, qo_MatchStrategy = MatchNGram,
           qo_NGramSize = 3\<rparr> slidingWindowStore) = Inr []
   \<and> snd (Query asciiToLower sorted_list_of_set ''test_sliding'' ''xbook''
          \<lparr>qo_MaxResults = 10, qo_CaseSensitive = False, qo_MatchStrategy = MatchNGram,
           qo_NGramSize = 3\<rparr> slidingWindowStore)
       = slidingWindowStore\<lparr>calls := calls slidingWindowStore + 1\<rparr>"
proof -
  let ?o = "\<lparr>qo_MaxResults = 10, qo_CaseSensitive = False, qo_MatchStrategy = MatchNGram,
           qo_NGramSize = 3\<rparr>"
  let ?rs = "[\<lparr>ID = ''1'', Display = ''bookshelf'', Score = 1\<rparr>,
            \<lparr>ID = ''4'', Display = ''shelfware'', Score = 1\<rparr>]"
  have shelf: "fst (Query asciiToLower sorted_list_of_set ''test_sliding'' ''shelf'' ?o
                  slidingWindowStore) = Inr ?rs"
    by code_simp
  have bookshelf: "fst (Query asciiToLower sorted_list_of_set ''test_sliding'' ''bookshelf'' ?o
                  slidingWindowStore) = Inr [\<lparr>ID = ''1'', Display = ''bookshelf'', Score = 1\<rparr>]"
    by code_simp
  have lower: "asciiToLower ''shelf'' = ''shelf''"
    by code_simp
  have w: "windows ''shelf'' 3 = [''she'', ''hel'', ''elf'']"
    by code_simp
  have s1: "qo_MatchStrategy ?o = MatchNGram"
    by simp
  have s2: "3 = nat (getNGramSizeOrDefault (qo_NGramSize ?o))"
    by (simp add: getNGramSizeOrDefault_def)
  have s3: "''shelf'' = (if \<not> qo_CaseSensitive ?o then asciiToLower ''shelf'' else ''shelf'')"
    by (simp add: lower)
  have s4: "3 < length ''shelf''"
    by simp
  have enum: "finite S \<Longrightarrow> set (sorted_list_of_set S) = S" for S :: "string set"
    by simp
  note t = C2_sliding_window_intersection [where options = ?o and query = "''shelf''"
      and ToLower = asciiToLower and keysOf = sorted_list_of_set
      and st = slidingWindowStore and key = "''test_sliding''" and n = 3
      and searchQuery = "''shelf''" and ws = "windows ''shelf'' 3"
      and W = "windowIDSet slidingWindowStore ''test_sliding'' (qo_MaxResults ?o)",
      OF s1 s2 s3 s4 refl refl enum]
  have "\<forall>r \<in> set ?rs. \<forall>w \<in> set (windows ''shelf'' 3).
          ID r \<in> windowIDSet slidingWindowStore ''test_sliding'' 10 w"
    using t shelf by simp
  then have inside: "''1'' \<in> windowIDSet slidingWindowStore ''test_sliding'' 10 ''she''
      \<and> ''1'' \<in> windowIDSet slidingWindowStore ''test_sliding'' 10 ''hel''
      \<and> ''1'' \<in> windowIDSet slidingWindowStore ''test_sliding'' 10 ''elf''
      \<and> ''4'' \<in> windowIDSet slidingWindowStore ''test_sliding'' 10 ''she''
      \<and> ''4'' \<in> windowIDSet slidingWindowStore ''test_sliding'' 10 ''hel''
      \<and> ''4'' \<in> windowIDSet slidingWindowStore ''test_sliding'' 10 ''elf''"
    by (simp add: w)
  have x3: "''xbook'' = (if \<not> qo_CaseSensitive ?o then asciiToLower ''xbook'' else ''xbook'')"
    by code_simp
  have x4: "3 < length ''xbook''"
    by simp
  have xw: "windows ''xbook'' 3 = [''xbo'', ''boo'', ''ook'']"
    by code_simp
  have x0: "windowIDSet slidingWindowStore ''test_sliding'' 10 ''xbo'' = {}"
    by code_simp
  note early = C2_sliding_window_intersection [where options = ?o and query = "''xbook''"
      and ToLower = asciiToLower and keysOf = sorted_list_of_set
      and st = slidingWindowStore and key = "''test_sliding''" and n = 3
      and searchQuery = "''xbook''" and ws = "windows ''xbook'' 3"
      and W = "windowIDSet slidingWindowStore ''test_sliding'' (qo_MaxResults ?o)",
      OF s1 s2 x3 x4 refl refl enum]
  have stopped: "fst (Query asciiToLower sorted_list_of_set ''test_sliding'' ''xbook'' ?o
                        slidingWindowStore) = Inr []
      \<and> snd (Query asciiToLower sorted_list_of_set ''test_sliding'' ''xbook'' ?o
                        slidingWindowStore)
          = slidingWindowStore\<lparr>calls := calls slidingWindowStore + 1\<rparr>"
    using early by (simp add: xw x0)
  from shelf bookshelf w inside xw x0 stopped show ?thesis
    by (intro conjI) (simp_all only: simp_thms)
qed


section \<open>Range scans\<close>

lemma range_implies_prefix:
  fixes q m :: string
  assumes "q \<le> m" and "m \<le> q @ [c]"
  shows "prefix q m"
  using assms
proof (induction q arbitrary: m)
  case Nil
  then show ?case by simp
next
  case (Cons a q)
  then show ?case by (cases m) auto
qed


lemma prefix_before_separator:
  assumes "prefix q (p @ c # rest)" and "c \<notin> set q"
  shows "prefix q p"
proof -
  from assms(1) consider "prefix q p" | us where "q = p @ us" "prefix us (c # rest)"
    by (auto simp: prefix_append)
  then show ?thesis
  proof cases
    case 1
    then show ?thesis .
  next
    case 2
    then show ?thesis
      using assms(2) by (cases us) auto
  qed
qed

lemma set_lexRange:
  "set (lexRange z lo hi) = {m \<in> set (map fst z). aboveMin lo m \<and> belowMax hi m}"
  by (auto simp: lexRange_def)

lemma set_limitCount: "set (limitCount c xs) \<subseteq> set xs"
  by (auto simp: limitCount_def dest: in_set_takeD)

lemma uniqueIDsLoop_subset:
  "set (uniqueIDsLoop results minParts maxResults uniqueIDs ids)
     \<subseteq> set ids \<union> (\<lambda>r. extractIDFromMember r minParts) ` set results"
proof (induction results arbitrary: uniqueIDs ids)
  case Nil
  then show ?case by simp
next
  case (Cons r results)
  let ?e = "extractIDFromMember r minParts"
  from Cons.IH [of "insert ?e uniqueIDs" "ids @ [?e]"] Cons.IH [of uniqueIDs ids]
  show ?case by (auto simp: Let_def)
qed

text \<open>An id returned by the single-scan query is decoded from a key inside the bounds.\<close>

lemma scan_result_from_key:
  assumes scan: "qo_MatchStrategy qoptions \<noteq> MatchNGram"
    and rs: "fst (Query ToLower keysOf key query qoptions st) = Inr rs"
    and r: "r \<in> set rs"
    and q: "q = (if \<not> qo_CaseSensitive qoptions then ToLower query else query)"
  shows "\<exists>m \<in> zmembers st (prefixSet @ key).
           q \<le> m \<and> m \<le> q @ lexicographicMaxChar
           \<and> extractIDFromMember m (getMinPartsForStrategy (qo_MatchStrategy qoptions)) = ID r"
proof -
  let ?c = "wrap64 (qo_MaxResults qoptions * resultMultiplierForDuplicates)"
  let ?hits = "lexRange (zsets st (prefixSet @ key)) (Incl q) (Incl (q @ lexicographicMaxChar))"
  let ?results = "limitCount ?c ?hits"
  let ?ids = "extractUniqueIDsFromResults ?results qoptions"
  let ?mp = "getMinPartsForStrategy (qo_MatchStrategy qoptions)"
  have "rs = [] \<or> rs = collectResults ?ids (map (hashes st (prefixDisplay @ key)) ?ids)"
    using scan rs
    by (simp add: Query_def Let_def ZRangeByLex_keys q fetchProviderResults_eq
        split: if_splits)
  with r have "r \<in> set (collectResults ?ids (map (hashes st (prefixDisplay @ key)) ?ids))"
    by auto
  then have "ID r \<in> set ?ids"
    by (rule collectResults_ids)
  then have "ID r \<in> (\<lambda>m. extractIDFromMember m ?mp) ` set ?results"
    using uniqueIDsLoop_subset [of ?results ?mp "qo_MaxResults qoptions" "{}" "[]"]
    by (auto simp: extractUniqueIDsFromResults_def)
  then obtain m where m: "m \<in> set ?results" and dec: "extractIDFromMember m ?mp = ID r"
    by auto
  from m set_limitCount [of ?c ?hits] have "m \<in> set ?hits"
    by (rule set_mp [rotated])
  then have "m \<in> zmembers st (prefixSet @ key) \<and> q \<le> m \<and> m \<le> q @ lexicographicMaxChar"
    by (simp add: set_lexRange zmembers_def)
  with dec show ?thesis by blast
qed


section \<open>The prefix strategy\<close>

text \<open>
  Claim C6, as stated, fails for a query that contains the separator: the bounds of the
  scan compare whole composite keys, so the query \<open>a:\<close>, which is not a prefix of the
  text \<open>ab\<close>, matches the key \<open>a:1\<close> and returns the entry.
\<close>

theorem C6_counterexample_query_with_separator:
  "\<not> prefix ''a:'' (asciiToLower ''ab'')
   \<and> fst (Query asciiToLower sorted_list_of_set ''k'' ''a:''
            \<lparr>qo_MaxResults = 10, qo_CaseSensitive = False, qo_MatchStrategy = MatchPrefix,
             qo_NGramSize = 3\<rparr>
            (snd (Index asciiToLower ''k'' ''1'' ''ab'' ''AB''
                    \<lparr>io_Score = 1, io_MatchStrategy = MatchPrefix, io_NGramSize = 3,
                     io_CaseSensitive = False\<rparr> emptyRedis)))
       = Inr [\<lparr>ID = ''1'', Display = ''AB'', Score = 1\<rparr>]"
  by code_simp

text \<open>
  Claim C6, amended. Let an entry be indexed with the prefix strategy under an id that no
  key of the token index decoded to before. Then every query whose search string (the
  query, lowercased unless case-sensitive) has no separator \<open>:\<close> and is not a prefix of
  the entry's case-normalized text returns no match for that entry. The keys written are
  \<open>prefix:id\<close> for the prefixes of length 1 to \<open>len(text)\<close>, with no position component.
\<close>

theorem C6_prefix_query_matches_only_prefixes:
  assumes index: "Index ToLower key eid text display options st = (None, st1)"
    and strategy: "io_MatchStrategy options = MatchPrefix"
    and qstrategy: "qo_MatchStrategy qoptions = MatchPrefix"
    and fresh: "\<forall>m \<in> zmembers st (prefixSet @ key).
                  extractIDFromMember m minMemberPartsForID \<noteq> eid"
    and t: "textToIndex = (if \<not> io_CaseSensitive options then ToLower text else text)"
    and q: "searchQuery = (if \<not> qo_CaseSensitive qoptions then ToLower query else query)"
    and nosep: "CHR '':'' \<notin> set searchQuery"
    and nonprefix: "\<not> prefix searchQuery textToIndex"
  shows "(\<forall>rs. fst (Query ToLower keysOf key query qoptions st1) = Inr rs \<longrightarrow> eid \<notin> ID ` set rs)
    \<and> zmembers st1 (prefixSet @ key) =
        zmembers st (prefixSet @ key)
        \<union> {createPrefixMember (take i textToIndex) eid | i. 1 \<le> i \<and> i \<le> length textToIndex}"
proof -
  let ?new = "{createPrefixMember (take i textToIndex) eid | i.
                1 \<le> i \<and> i \<le> length textToIndex}"
  have written: "zmembers st1 (prefixSet @ key) = zmembers st (prefixSet @ key) \<union> ?new"
    using Index_success(1) [OF index]
    by (simp only: strategy t [symmetric] set_indexMembers_Prefix)
  have "eid \<notin> ID ` set rs"
    if rs: "fst (Query ToLower keysOf key query qoptions st1) = Inr rs" for rs
  proof
    assume "eid \<in> ID ` set rs"
    then obtain r where r: "r \<in> set rs" "ID r = eid" by auto
    have scan: "qo_MatchStrategy qoptions \<noteq> MatchNGram"
      by (simp add: qstrategy)
    have mp: "getMinPartsForStrategy (qo_MatchStrategy qoptions) = minMemberPartsForID"
      by (simp add: qstrategy getMinPartsForStrategy_def)
    from scan_result_from_key [OF scan rs r(1) q] obtain m
      where m: "m \<in> zmembers st1 (prefixSet @ key)"
        and lo: "searchQuery \<le> m" and hi: "m \<le> searchQuery @ lexicographicMaxChar"
        and dec: "extractIDFromMember m minMemberPartsForID = eid"
      unfolding mp r(2) by blast
    from m have "m \<in> zmembers st (prefixSet @ key) \<or> m \<in> ?new"
      unfolding written by simp
    with fresh dec have "m \<in> ?new" by blast
    then obtain i where i: "m = createPrefixMember (take i textToIndex) eid"
      by blast
    have "prefix searchQuery m"
      using lo hi unfolding lexicographicMaxChar_def by (rule range_implies_prefix)
    then have "prefix searchQuery (take i textToIndex @ CHR '':'' # eid)"
      by (simp add: i createPrefixMember_def)
    then have "prefix searchQuery (take i textToIndex)"
      using nosep by (rule prefix_before_separator)
    then have "prefix searchQuery textToIndex"
      using take_is_prefix prefix_order.trans by blast
    with nonprefix show False by simp
  qed
  with written show ?thesis by blast
qed

theorem C6_prefix_query_witness:
  "fst (Query asciiToLower sorted_list_of_set ''cities'' ''Mum''
          \<lparr>qo_MaxResults = 10, qo_CaseSensitive = False, qo_MatchStrategy = MatchPrefix,
           qo_NGramSize = 3\<rparr>
          (snd (Index asciiToLower ''cities'' ''2'' ''Jammu'' ''Jammu, J&K''
                  \<lparr>io_Score = 1, io_MatchStrategy = MatchPrefix, io_NGramSize = 3,
                   io_CaseSensitive = False\<rparr> cityStore)))
     = Inr [\<lparr>ID = ''1'', Display = ''Mumbai, Maharashtra'', Score = 1\<rparr>]
   \<and> ''2'' \<notin> ID ` set [\<lparr>ID = ''1'', Display = ''Mumbai, Maharashtra'', Score = 1\<rparr>]
   \<and> zmembers (snd (Index asciiToLower ''cities'' ''2'' ''Jammu'' ''Jammu, J&K''
                  \<lparr>io_Score = 1, io_MatchStrategy = MatchPrefix, io_NGramSize = 3,
                   io_CaseSensitive = False\<rparr> cityStore)) (prefixSet @ ''cities'')
     = zmembers cityStore (prefixSet @ ''cities'')
       \<union> {''j:2'', ''ja:2'', ''jam:2'', ''jamm:2'', ''jammu:2''}"
proof -
  let ?io = "\<lparr>io_Score = 1, io_MatchStrategy = MatchPrefix, io_NGramSize = 3,
                   io_CaseSensitive = False\<rparr>"
  let ?qo = "\<lparr>qo_MaxResults = 10, qo_CaseSensitive = False, qo_MatchStrategy = MatchPrefix,
           qo_NGramSize = 3\<rparr>"
  let ?st1 = "snd (Index asciiToLower ''cities'' ''2'' ''Jammu'' ''Jammu, J&K'' ?io cityStore)"
  have "fst (Index asciiToLower ''cities'' ''2'' ''Jammu'' ''Jammu, J&K'' ?io cityStore) = None"
    by code_simp
  then have index: "Index asciiToLower ''cities'' ''2'' ''Jammu'' ''Jammu, J&K'' ?io cityStore
      = (None, ?st1)"
    by (simp add: prod_eq_iff)
  have fresh: "\<forall>m \<in> zmembers cityStore (prefixSet @ ''cities'').
      extractIDFromMember m minMemberPartsForID \<noteq> ''2''"
    by code_simp
  have t: "''jammu'' = (if \<not> io_CaseSensitive ?io then asciiToLower ''Jammu'' else ''Jammu'')"
    by code_simp
  have q: "''mum'' = (if \<not> qo_CaseSensitive ?qo then asciiToLower ''Mum'' else ''Mum'')"
    by code_simp
  have nosep: "CHR '':'' \<notin> set ''mum''"
    by simp
  have nonprefix: "\<not> prefix ''mum'' ''jammu''"
    by simp
  have res: "fst (Query asciiToLower sorted_list_of_set ''cities'' ''Mum'' ?qo ?st1)
     = Inr [\<lparr>ID = ''1'', Display = ''Mumbai, Maharashtra'', Score = 1\<rparr>]"
    by code_simp
  have new: "{createPrefixMember (take i ''jammu'') ''2'' | i. 1 \<le> i \<and> i \<le> length ''jammu''}
      = {''j:2'', ''ja:2'', ''jam:2'', ''jamm:2'', ''jammu:2''}"
    using set_indexMembers_Prefix [of "''jammu''" "''2''" 3, symmetric]
    by (simp add: indexMembers_def createPrefixMember_def)
  note inst = C6_prefix_query_matches_only_prefixes [where keysOf = sorted_list_of_set,
      OF index _ _ fresh t q nosep nonprefix]
  have "''2'' \<notin> ID ` set [\<lparr>ID = ''1'', Display = ''Mumbai, Maharashtra'', Score = 1\<rparr>]"
    using inst res by simp
  moreover have "zmembers ?st1 (prefixSet @ ''cities'')
     = zmembers cityStore (prefixSet @ ''cities'')
       \<union> {''j:2'', ''ja:2'', ''jam:2'', ''jamm:2'', ''jammu:2''}"
    using inst new by simp
  ultimately show ?thesis using res by simp
qed


section \<open>The substring strategy\<close>



lemma uniqueIDsLoop_complete:
  assumes "uniqueIDs = set ids" and "distinct ids"
    and "int (card (set ids \<union> {e \<in> (\<lambda>r. extractIDFromMember r minParts) ` set results. e \<noteq> []}))
           \<le> maxResults"
  shows "set (uniqueIDsLoop results minParts maxResults uniqueIDs ids)
         = set ids \<union> {e \<in> (\<lambda>r. extractIDFromMember r minParts) ` set results. e \<noteq> []}"
  using assms
proof (induction results arbitrary: uniqueIDs ids)
  case Nil
  then show ?case by simp
next
  case (Cons r results)
  let ?e = "extractIDFromMember r minParts"
  let ?D = "{e \<in> (\<lambda>r. extractIDFromMember r minParts) ` set results. e \<noteq> []}"
  let ?D' = "{e \<in> (\<lambda>r. extractIDFromMember r minParts) ` set (r # results). e \<noteq> []}"
  show ?case
  proof (cases "?e \<noteq> [] \<and> ?e \<notin> uniqueIDs")
    case new: True
    then have D': "set ids \<union> ?D' = set (ids @ [?e]) \<union> ?D" by auto
    show ?thesis
    proof (cases "int (length (ids @ [?e])) \<ge> maxResults")
      case True
      have "distinct (ids @ [?e])"
        using new Cons.prems(1,2) by simp
      then have "card (set (ids @ [?e])) = length (ids @ [?e])"
        by (rule distinct_card)
      with True Cons.prems(3) have "card (set ids \<union> ?D') \<le> card (set (ids @ [?e]))"
        by linarith
      moreover have "set (ids @ [?e]) \<subseteq> set ids \<union> ?D'"
        using new by auto
      moreover have "finite (set ids \<union> ?D')" by simp
      ultimately have "set (ids @ [?e]) = set ids \<union> ?D'"
        by (metis card_seteq)
      then show ?thesis
        using new True by (simp add: Let_def)
    next
      case False
      have "set (uniqueIDsLoop results minParts maxResults (insert ?e uniqueIDs) (ids @ [?e]))
            = set (ids @ [?e]) \<union> ?D"
      proof (rule Cons.IH)
        show "insert ?e uniqueIDs = set (ids @ [?e])"
          using Cons.prems(1) by simp
        show "distinct (ids @ [?e])"
          using new Cons.prems(1,2) by simp
        show "int (card (set (ids @ [?e]) \<union> ?D)) \<le> maxResults"
          using Cons.prems(3) unfolding D' .
      qed
      then show ?thesis
        using new False unfolding D' by (simp add: Let_def)
    qed
  next
    case old: False
    then have D': "set ids \<union> ?D' = set ids \<union> ?D"
      using Cons.prems(1) by auto
    have "set (uniqueIDsLoop results minParts maxResults uniqueIDs ids) = set ids \<union> ?D"
    proof (rule Cons.IH)
      show "uniqueIDs = set ids" by (rule Cons.prems(1))
      show "distinct ids" by (rule Cons.prems(2))
      show "int (card (set ids \<union> ?D)) \<le> maxResults"
        using Cons.prems(3) unfolding D' .
    qed
    then show ?thesis
      using old unfolding D' by (auto simp: Let_def)
  qed
qed








section \<open>Bytes, not characters\<close>




lemma uniqueIDsLoop_keeps:
  "prefix ids (uniqueIDsLoop results minParts maxResults uniqueIDs ids)"
proof (induction results arbitrary: uniqueIDs ids)
  case Nil
  then show ?case by simp
next
  case (Cons r results)
  let ?e = "extractIDFromMember r minParts"
  have "prefix (ids @ [?e]) ys \<Longrightarrow> prefix ids ys" for ys
    by (rule append_prefixD)
  with Cons.IH [where uniqueIDs = "insert ?e uniqueIDs" and ids = "ids @ [?e]"]
    Cons.IH [where uniqueIDs = uniqueIDs and ids = ids]
  show ?case
    by (auto simp: Let_def)
qed

lemma extractUniqueIDsFromResults_head:
  assumes "extractIDFromMember m (getMinPartsForStrategy (qo_MatchStrategy options)) \<noteq> []"
  shows "\<exists>rest. extractUniqueIDsFromResults (m # results) options
           = extractIDFromMember m (getMinPartsForStrategy (qo_MatchStrategy options)) # rest"
proof -
  let ?e = "extractIDFromMember m (getMinPartsForStrategy (qo_MatchStrategy options))"
  have "prefix [?e] (uniqueIDsLoop results (getMinPartsForStrategy (qo_MatchStrategy options))
          (qo_MaxResults options) {?e} [?e])"
    by (rule uniqueIDsLoop_keeps)
  then obtain rest where "uniqueIDsLoop results (getMinPartsForStrategy (qo_MatchStrategy options))
          (qo_MaxResults options) {?e} [?e] = ?e # rest"
    by (auto simp: prefix_def)
  then show ?thesis
    using assms by (simp add: extractUniqueIDsFromResults_def Let_def)
qed

section \<open>Keys that do not decode\<close>

lemma uniqueIDsLoop_skip_empty:
  "uniqueIDsLoop (filter (\<lambda>m. extractIDFromMember m minParts \<noteq> []) results)
     minParts maxResults uniqueIDs ids
   = uniqueIDsLoop results minParts maxResults uniqueIDs ids"
  by (induction results arbitrary: uniqueIDs ids) (simp_all add: Let_def)

lemma Split_id_with_separator:
  assumes "CHR '':'' \<notin> set tok" and "CHR '':'' \<notin> set a"
  shows "Split (tok @ '':'' @ a @ '':'' @ rest) = tok # a # Split rest"
  using assms by (simp add: Split_field)

lemma extractIDFromMember_id_with_separator:
  assumes "CHR '':'' \<notin> set tok" and "CHR '':'' \<notin> set a"
  shows "extractIDFromMember (createPositionalMember tok (a @ '':'' @ b) pos)
           minMemberPartsForPositionalID = a"
    and "extractIDFromMember (createPrefixMember tok (a @ '':'' @ b)) minMemberPartsForID = a"
proof -
  have "Split (createPositionalMember tok (a @ '':'' @ b) pos)
          = tok # a # Split (b @ '':'' @ itoa pos)"
    using Split_id_with_separator [OF assms, of "b @ '':'' @ itoa pos"]
    by (simp add: createPositionalMember_def)
  moreover have "2 \<le> length (Split (b @ '':'' @ itoa pos))"
    by (simp add: length_Split)
  ultimately show "extractIDFromMember (createPositionalMember tok (a @ '':'' @ b) pos)
           minMemberPartsForPositionalID = a"
    by (simp add: extractIDFromMember_def minMemberPartsForPositionalID_def)
  have "Split (createPrefixMember tok (a @ '':'' @ b)) = tok # a # Split b"
    using Split_id_with_separator [OF assms, of b]
    by (simp add: createPrefixMember_def)
  moreover have "1 \<le> length (Split b)"
    by (simp add: length_Split)
  ultimately show "extractIDFromMember (createPrefixMember tok (a @ '':'' @ b))
           minMemberPartsForID = a"
    by (simp add: extractIDFromMember_def minMemberPartsForID_def)
qed

text \<open>
  Claim C4, as stated, fails for a key whose id contains the separator: the key has enough
  fields, so it is not skipped; its second field is taken for the id. The key
  \<open>tok:a:b:0\<close> of the entry \<open>a:b\<close> contributes the id \<open>a\<close>.
\<close>

theorem C4_counterexample_id_with_separator:
  "extractUniqueIDsFromResults [createPositionalMember ''tok'' ''a:b'' 0]
     \<lparr>qo_MaxResults = 10, qo_CaseSensitive = False, qo_MatchStrategy = MatchSubstring,
      qo_NGramSize = 3\<rparr> = [''a'']"
  by code_simp

text \<open>
  Claim C4, amended. During result assembly a composite key is skipped exactly when it
  decodes to the empty id: the ids assembled from a list of keys are those assembled from
  the list without such keys, in the capped scan and in the sliding-window sets alike, and
  no error is raised. Every key with fewer separator-delimited fields than the strategy's
  minimum (2 for prefix, 3 for positional strategies) decodes to the empty id, so it is
  skipped. A key whose id contains the separator is not detected: with a separator-free
  token, the prefix key and the positional key of the id \<open>a:b\<close> (\<open>a\<close> separator-free)
  both decode to \<open>a\<close>, the part of the id before its first separator. Such a key is
  skipped when \<open>a\<close> is empty (the id begins with the separator). Otherwise it contributes
  the id \<open>a\<close>: a window's id set is exactly the set of non-empty decoded values of its
  keys, and the capped scan yields exactly that set when it has at most \<open>MaxResults\<close>
  elements, and in any case yields the decoded value of the first key that is not skipped.
\<close>

theorem C4_short_keys_skipped:
  "extractUniqueIDsFromResults results options =
     extractUniqueIDsFromResults
       (filter (\<lambda>m. getMinPartsForStrategy (qo_MatchStrategy options) \<le> int (length (Split m)))
          results) options
   \<and> extractIDsFromResults results minMemberPartsForPositionalID =
     extractIDsFromResults
       (filter (\<lambda>m. minMemberPartsForPositionalID \<le> int (length (Split m))) results)
       minMemberPartsForPositionalID
   \<and> (int (length (Split member)) < getMinPartsForStrategy strategy \<longrightarrow>
        extractIDFromMember member (getMinPartsForStrategy strategy) = [])
   \<and> (CHR '':'' \<notin> set tok \<and> CHR '':'' \<notin> set a \<longrightarrow>
        extractIDFromMember (createPositionalMember tok (a @ '':'' @ b) pos)
          minMemberPartsForPositionalID = a
        \<and> extractIDFromMember (createPrefixMember tok (a @ '':'' @ b)) minMemberPartsForID = a)
   \<and> extractUniqueIDsFromResults results options =
     extractUniqueIDsFromResults
       (filter (\<lambda>m. extractIDFromMember m (getMinPartsForStrategy (qo_MatchStrategy options))
                      \<noteq> []) results) options
   \<and> extractIDsFromResults results minParts =
       {e \<in> (\<lambda>m. extractIDFromMember m minParts) ` set results. e \<noteq> []}
   \<and> (int (card (extractIDsFromResults results
                    (getMinPartsForStrategy (qo_MatchStrategy options))))
         \<le> qo_MaxResults options \<longrightarrow>
        set (extractUniqueIDsFromResults results options) =
          extractIDsFromResults results (getMinPartsForStrategy (qo_MatchStrategy options)))
   \<and> (extractIDFromMember member (getMinPartsForStrategy (qo_MatchStrategy options)) \<noteq> [] \<longrightarrow>
        extractIDFromMember member (getMinPartsForStrategy (qo_MatchStrategy options))
          \<in> set (extractUniqueIDsFromResults (member # results) options)
        \<and> hd (extractUniqueIDsFromResults (member # results) options)
          = extractIDFromMember member (getMinPartsForStrategy (qo_MatchStrategy options)))"
proof (intro conjI impI)
  let ?mp = "getMinPartsForStrategy (qo_MatchStrategy options)"
  show "extractUniqueIDsFromResults results options =
     extractUniqueIDsFromResults
       (filter (\<lambda>m. ?mp \<le> int (length (Split m))) results) options"
    by (simp add: extractUniqueIDsFromResults_def uniqueIDsLoop_filter)
  show "extractIDsFromResults results minMemberPartsForPositionalID =
     extractIDsFromResults
       (filter (\<lambda>m. minMemberPartsForPositionalID \<le> int (length (Split m))) results)
       minMemberPartsForPositionalID"
    by (simp add: extractIDsFromResults_def fold_extract_filter)
  show "extractIDFromMember member (getMinPartsForStrategy strategy) = []"
    if "int (length (Split member)) < getMinPartsForStrategy strategy"
    using that by (rule extractIDFromMember_short)
  show "extractIDFromMember (createPositionalMember tok (a @ '':'' @ b) pos)
          minMemberPartsForPositionalID = a"
    if "CHR '':'' \<notin> set tok \<and> CHR '':'' \<notin> set a"
    using that extractIDFromMember_id_with_separator(1) [of tok a b pos] by simp
  show "extractIDFromMember (createPrefixMember tok (a @ '':'' @ b)) minMemberPartsForID = a"
    if "CHR '':'' \<notin> set tok \<and> CHR '':'' \<notin> set a"
    using that extractIDFromMember_id_with_separator(2) [of tok a b] by simp
  show "extractUniqueIDsFromResults results options =
     extractUniqueIDsFromResults
       (filter (\<lambda>m. extractIDFromMember m ?mp \<noteq> []) results) options"
    by (simp add: extractUniqueIDsFromResults_def uniqueIDsLoop_skip_empty)
  show "extractIDsFromResults results minParts =
       {e \<in> (\<lambda>m. extractIDFromMember m minParts) ` set results. e \<noteq> []}"
    by (rule extractIDsFromResults_eq)
  show "set (extractUniqueIDsFromResults results options) = extractIDsFromResults results ?mp"
    if "int (card (extractIDsFromResults results ?mp)) \<le> qo_MaxResults options"
    using uniqueIDsLoop_complete [of "{}" "[]" ?mp results "qo_MaxResults options"] that
    by (simp add: extractUniqueIDsFromResults_def extractIDsFromResults_eq)
  show "extractIDFromMember member ?mp
          \<in> set (extractUniqueIDsFromResults (member # results) options)"
    if "extractIDFromMember member ?mp \<noteq> []"
    using extractUniqueIDsFromResults_head [OF that, of results] by auto
  show "hd (extractUniqueIDsFromResults (member # results) options)
          = extractIDFromMember member ?mp"
    if "extractIDFromMember member ?mp \<noteq> []"
    using extractUniqueIDsFromResults_head [OF that, of results] by auto
qed

text \<open>
  With the substring strategy the keys \<open>tok\<close> and \<open>tok:7\<close> are too short and skipped;
  \<open>tok::b:0\<close>, the key of the id \<open>:b\<close>, decodes to the empty id and is skipped;
  \<open>tok:a:b:0\<close>, the key of the id \<open>a:b\<close>, contributes \<open>a\<close>. With the prefix strategy
  \<open>tok\<close> is too short, \<open>tok::b\<close> is skipped and \<open>tok:a:b\<close> contributes \<open>a\<close>.
\<close>

theorem C4_short_keys_skipped_witness:
  "extractUniqueIDsFromResults
     [''tok'', ''tok:7'', createPositionalMember ''tok'' '':b'' 0,
      createPositionalMember ''tok'' ''a:b'' 0, ''b:9:1'']
     \<lparr>qo_MaxResults = 10, qo_CaseSensitive = False, qo_MatchStrategy = MatchSubstring,
      qo_NGramSize = 3\<rparr> = [''a'', ''9'']
   \<and> extractIDsFromResults
       [''tok'', ''tok:7'', createPositionalMember ''tok'' '':b'' 0,
        createPositionalMember ''tok'' ''a:b'' 0, ''b:9:1''] minMemberPartsForPositionalID
     = {''a'', ''9''}
   \<and> extractIDFromMember ''tok:7'' (getMinPartsForStrategy MatchSubstring) = []
   \<and> extractIDFromMember ''tok'' (getMinPartsForStrategy MatchPrefix) = []
   \<and> extractIDFromMember (createPositionalMember ''tok'' (''a'' @ '':'' @ ''b'') 0)
        minMemberPartsForPositionalID = ''a''
   \<and> extractIDFromMember (createPrefixMember ''tok'' (''a'' @ '':'' @ ''b''))
        minMemberPartsForID = ''a''
   \<and> extractIDFromMember (createPositionalMember ''tok'' ([] @ '':'' @ ''b'') 0)
        minMemberPartsForPositionalID = []
   \<and> extractUniqueIDsFromResults
       [''tok'', createPrefixMember ''tok'' '':b'', createPrefixMember ''tok'' ''a:b'']
       \<lparr>qo_MaxResults = 1, qo_CaseSensitive = False, qo_MatchStrategy = MatchPrefix,
        qo_NGramSize = 3\<rparr> = [''a'']
   \<and> ''a'' \<in> set (extractUniqueIDsFromResults
       [createPrefixMember ''tok'' ''a:b'', ''x:1'', ''y:2'']
       \<lparr>qo_MaxResults = 1, qo_CaseSensitive = False, qo_MatchStrategy = MatchPrefix,
        qo_NGramSize = 3\<rparr>)"
proof -
  let ?o = "\<lparr>qo_MaxResults = 10, qo_CaseSensitive = False, qo_MatchStrategy = MatchSubstring,
      qo_NGramSize = 3\<rparr>"
  let ?p = "\<lparr>qo_MaxResults = 1, qo_CaseSensitive = False, qo_MatchStrategy = MatchPrefix,
        qo_NGramSize = 3\<rparr>"
  let ?rs = "[''tok'', ''tok:7'', createPositionalMember ''tok'' '':b'' 0,
      createPositionalMember ''tok'' ''a:b'' 0, ''b:9:1'']"
  let ?ps = "[''tok'', createPrefixMember ''tok'' '':b'', createPrefixMember ''tok'' ''a:b'']"
  note t = C4_short_keys_skipped [where results = ?rs
      and options = ?o and strategy = MatchSubstring and member = "''tok:7''"
      and tok = "''tok''" and a = "''a''" and b = "''b''" and pos = 0
      and minParts = minMemberPartsForPositionalID]
  note u = C4_short_keys_skipped [where strategy = MatchPrefix and member = "''tok''"]
  note v = C4_short_keys_skipped [where tok = "''tok''" and a = "[]" and b = "''b''"
      and pos = 0]
  note w = C4_short_keys_skipped [where results = ?ps and options = ?p]
  note x = C4_short_keys_skipped [where results = "[''x:1'', ''y:2'']" and options = ?p
      and member = "createPrefixMember ''tok'' ''a:b''"]
  note t3 = t [THEN conjunct2, THEN conjunct2, THEN conjunct1]
  note t4 = t [THEN conjunct2, THEN conjunct2, THEN conjunct2, THEN conjunct1]
  note t5 = t [THEN conjunct2, THEN conjunct2, THEN conjunct2, THEN conjunct2, THEN conjunct1]
  note t6 = t [THEN conjunct2, THEN conjunct2, THEN conjunct2, THEN conjunct2, THEN conjunct2,
      THEN conjunct1]
  note u3 = u [THEN conjunct2, THEN conjunct2, THEN conjunct1]
  note v4 = v [THEN conjunct2, THEN conjunct2, THEN conjunct2, THEN conjunct1]
  note w5 = w [THEN conjunct2, THEN conjunct2, THEN conjunct2, THEN conjunct2, THEN conjunct1]
  note x8 = x [THEN conjunct2, THEN conjunct2, THEN conjunct2, THEN conjunct2, THEN conjunct2,
      THEN conjunct2, THEN conjunct2]
  have f: "filter (\<lambda>m. extractIDFromMember m (getMinPartsForStrategy (qo_MatchStrategy ?o))
                         \<noteq> []) ?rs
           = [createPositionalMember ''tok'' ''a:b'' 0, ''b:9:1'']"
    by code_simp
  have e: "extractUniqueIDsFromResults [createPositionalMember ''tok'' ''a:b'' 0, ''b:9:1''] ?o
           = [''a'', ''9'']"
    by code_simp
  have s: "{e \<in> (\<lambda>m. extractIDFromMember m minMemberPartsForPositionalID) ` set ?rs. e \<noteq> []}
           = {''a'', ''9''}"
    by code_simp
  have l: "int (length (Split ''tok:7'')) < getMinPartsForStrategy MatchSubstring"
    by code_simp
  have k: "int (length (Split ''tok'')) < getMinPartsForStrategy MatchPrefix"
    by code_simp
  have g: "filter (\<lambda>m. extractIDFromMember m (getMinPartsForStrategy (qo_MatchStrategy ?p))
                         \<noteq> []) ?ps
           = [createPrefixMember ''tok'' ''a:b'']"
    by code_simp
  have h: "extractUniqueIDsFromResults [createPrefixMember ''tok'' ''a:b''] ?p = [''a'']"
    by code_simp
  have d: "extractIDFromMember (createPrefixMember ''tok'' ''a:b'')
             (getMinPartsForStrategy (qo_MatchStrategy ?p)) = ''a''"
    by code_simp
  have 1: "extractUniqueIDsFromResults ?rs ?o = [''a'', ''9'']"
    by (rule trans [OF t5]) (simp only: f e)
  have 2: "extractIDsFromResults ?rs minMemberPartsForPositionalID = {''a'', ''9''}"
    by (rule trans [OF t6]) (rule s)
  have 3: "extractIDFromMember ''tok:7'' (getMinPartsForStrategy MatchSubstring) = []"
    by (rule mp [OF t3 l])
  have 4: "extractIDFromMember ''tok'' (getMinPartsForStrategy MatchPrefix) = []"
    by (rule mp [OF u3 k])
  have nosep: "CHR '':'' \<notin> set ''tok'' \<and> CHR '':'' \<notin> set ''a''"
    by simp
  have nosep': "CHR '':'' \<notin> set ''tok'' \<and> CHR '':'' \<notin> set []"
    by simp
  note 5 = mp [OF t4 nosep]
  note 6 = mp [OF v4 nosep', THEN conjunct1]
  have 7: "extractUniqueIDsFromResults ?ps ?p = [''a'']"
    by (rule trans [OF w5]) (simp only: g h)
  have dne: "extractIDFromMember (createPrefixMember ''tok'' ''a:b'')
             (getMinPartsForStrategy (qo_MatchStrategy ?p)) \<noteq> []"
    by (simp only: d) simp
  have 8: "''a'' \<in> set (extractUniqueIDsFromResults
       [createPrefixMember ''tok'' ''a:b'', ''x:1'', ''y:2''] ?p)"
    using mp [OF x8 dne, THEN conjunct1] by (simp only: d)
  show ?thesis
    by (intro conjI) (rule 1 2 3 4 5 [THEN conjunct1] 5 [THEN conjunct2] 6 7 8)+
qed

section \<open>Index followed by Delete\<close>









section \<open>Case sensitivity\<close>



end
